theory Spec2Isabelle
  imports Complex_Main "HOL-Library.Sublist"
begin

section \<open>Campus Life Planner: validators and search\<close>

text \<open>
  A shallow embedding of \<^verbatim>\<open>scripts/validators.js\<close> and of the search module
  (\<^verbatim>\<open>parseQuery\<close>, \<^verbatim>\<open>applyCommand\<close>, \<^verbatim>\<open>searchTasks\<close>, \<^verbatim>\<open>performSearch\<close>).

  JavaScript strings are modelled as \<^typ>\<open>string\<close>: lists of code units, here restricted to
  the code units 0..255.  The regular expressions of the source are kept as syntax trees and
  run by a matcher that follows the backtracking semantics of ECMA-262 (section
  "Pattern Semantics"): the matcher returns every way a pattern can match from a position,
  in the order in which the backtracking search of the standard would find them, so the
  head of that list is the match JavaScript reports.
\<close>

subsection \<open>Characters and strings\<close>

definition code :: "char \<Rightarrow> nat" where
  "code c = of_char c"

definition is_digit :: "char \<Rightarrow> bool" where
  "is_digit c = (48 \<le> code c \<and> code c \<le> 57)"

definition is_alpha :: "char \<Rightarrow> bool" where
  "is_alpha c = ((97 \<le> code c \<and> code c \<le> 122) \<or> (65 \<le> code c \<and> code c \<le> 90))"

text \<open>The class \<^verbatim>\<open>\w\<close>: \<^verbatim>\<open>[A-Za-z0-9_]\<close>.\<close>

definition is_word :: "char \<Rightarrow> bool" where
  "is_word c = (is_alpha c \<or> is_digit c \<or> code c = 95)"

text \<open>Line terminators (LF, CR): what \<^verbatim>\<open>.\<close> refuses.\<close>

definition is_line_term :: "char \<Rightarrow> bool" where
  "is_line_term c = (code c = 10 \<or> code c = 13)"

text \<open>
  White space and line terminators below 256 (TAB, LF, VT, FF, CR, SP, NBSP): the class
  \<^verbatim>\<open>\s\<close>, and what \<^verbatim>\<open>String.prototype.trim\<close> strips.
\<close>

definition is_ws :: "char \<Rightarrow> bool" where
  "is_ws c = (code c = 9 \<or> code c = 10 \<or> code c = 11 \<or> code c = 12 \<or> code c = 13
               \<or> code c = 32 \<or> code c = 160)"

text \<open>
  Canonicalize of ECMA-262 (no \<^verbatim>\<open>u\<close> flag): with \<^verbatim>\<open>ignoreCase\<close>, a code unit is
  replaced by its upper-case form when that is a single code unit.  Below 256 this maps
  a..z and the Latin-1 letters 224..254 (but the division sign 247) down by 32; the code
  units 181 and 255, whose upper case lies above 255, stay distinct from every other
  code unit below 256 and are left as they are.
\<close>

definition canon :: "bool \<Rightarrow> char \<Rightarrow> char" where
  "canon ic c =
     (if ic \<and> ((97 \<le> code c \<and> code c \<le> 122) \<or> (224 \<le> code c \<and> code c \<le> 254 \<and> code c \<noteq> 247))
      then char_of (code c - 32) else c)"

text \<open>\<^verbatim>\<open>String.prototype.trim\<close>.\<close>

definition trim :: "string \<Rightarrow> string" where
  "trim s = rev (dropWhile is_ws (rev (dropWhile is_ws s)))"

text \<open>\<^verbatim>\<open>s.substring(i, j)\<close> for \<open>i \<le> j\<close>.\<close>

definition substring :: "string \<Rightarrow> nat \<Rightarrow> nat \<Rightarrow> string" where
  "substring s i j = take (j - i) (drop i s)"

text \<open>
  The values a caller can pass where the source expects a string.  The validators and
  \<^verbatim>\<open>compileRegex\<close> test \<^verbatim>\<open>!x || typeof x !== 'string'\<close>, which only tells a non-empty
  string from everything else.
\<close>

datatype jsval = JUndefined | JNull | JBool bool | JNum int | JStr string

subsection \<open>Regular expressions\<close>

text \<open>
  Class items (\<^verbatim>\<open>a\<close>, \<^verbatim>\<open>a-z\<close>, \<^verbatim>\<open>\d \D \w \W \s \S\<close>) and patterns.  \<open>Rep min max greedy r\<close> is
  a quantified term (\<open>max = None\<close> for no upper bound), \<open>Grp n r\<close> the \<open>n\<close>-th capturing
  group, \<open>Back n\<close> the back-reference \<^verbatim>\<open>\n\<close>; a non-capturing group needs no node.
\<close>

datatype citem = One char | Span char char | ClsD | ClsNotD | ClsW | ClsNotW | ClsS | ClsNotS

datatype rx =
    Empty
  | Chr char
  | Dot
  | CSet bool "citem list"
  | Bol
  | Eol
  | WordB
  | NotWordB
  | Seq rx rx
  | Alt rx rx
  | Rep nat "nat option" bool rx
  | Grp nat rx
  | Back nat

fun item_has :: "citem \<Rightarrow> char \<Rightarrow> bool" where
  "item_has (One a) c = (c = a)"
| "item_has (Span a b) c = (code a \<le> code c \<and> code c \<le> code b)"
| "item_has ClsD c = is_digit c"
| "item_has ClsNotD c = (\<not> is_digit c)"
| "item_has ClsW c = is_word c"
| "item_has ClsNotW c = (\<not> is_word c)"
| "item_has ClsS c = is_ws c"
| "item_has ClsNotS c = (\<not> is_ws c)"

text \<open>
  CharacterSetMatcher: a character is in a class when some member of the class has the
  same canonical form.  \<open>variants ic c\<close> lists the code units below 256 whose canonical form
  is that of \<open>c\<close>: \<open>c\<close>, its upper-case form and its lower-case form.
\<close>

definition uncanon :: "char \<Rightarrow> char" where
  "uncanon c =
     (if (65 \<le> code c \<and> code c \<le> 90) \<or> (192 \<le> code c \<and> code c \<le> 222 \<and> code c \<noteq> 215)
      then char_of (code c + 32) else c)"

definition variants :: "bool \<Rightarrow> char \<Rightarrow> char list" where
  "variants ic c = (if ic then [c, canon True c, uncanon c] else [c])"

definition cset_has :: "bool \<Rightarrow> citem list \<Rightarrow> char \<Rightarrow> bool" where
  "cset_has ic items c = (\<exists>it \<in> set items. \<exists>a \<in> set (variants ic c). item_has it a)"

fun groups :: "rx \<Rightarrow> nat set" where
  "groups (Seq a b) = groups a \<union> groups b"
| "groups (Alt a b) = groups a \<union> groups b"
| "groups (Rep mn mx g r) = groups r"
| "groups (Grp n r) = insert n (groups r)"
| "groups r = {}"

fun rsize :: "rx \<Rightarrow> nat" where
  "rsize (Seq a b) = Suc (rsize a + rsize b)"
| "rsize (Alt a b) = Suc (rsize a + rsize b)"
| "rsize (Rep mn mx g r) = Suc (rsize r)"
| "rsize (Grp n r) = Suc (rsize r)"
| "rsize r = 0"

fun rmin :: "rx \<Rightarrow> nat" where
  "rmin (Rep mn mx g r) = mn"
| "rmin r = 0"

text \<open>
  A match state: the end index reached and the captures made so far, the latest first, each
  with the number of its group.
\<close>

type_synonym captures = "(nat \<times> string) list"
type_synonym mstate = "nat \<times> captures"

definition no_captures :: captures where
  "no_captures = []"

text \<open>The capture of group \<open>n\<close>: the one made last, if any.\<close>

definition capture :: "captures \<Rightarrow> nat \<Rightarrow> string option" where
  "capture cap n = map_of cap n"

text \<open>IsWordChar of ECMA-262: false at index -1 and at the length of the input.\<close>

definition is_word_at :: "string \<Rightarrow> int \<Rightarrow> bool" where
  "is_word_at t e = (0 \<le> e \<and> e < int (length t) \<and> is_word (t ! nat e))"

definition pred_opt :: "nat option \<Rightarrow> nat option" where
  "pred_opt mx = (case mx of None \<Rightarrow> None | Some k \<Rightarrow> Some (k - 1))"

text \<open>
  \<open>matcher ic t r x\<close>: the states in which \<open>r\<close> can end when started in state \<open>x\<close> on the
  input \<open>t\<close>, in backtracking order.  The \<open>Rep\<close> equation is RepeatMatcher: the captures
  of the groups inside the body are cleared before each round, a round that matches the
  empty string when no further round is required is refused, and a greedy quantifier tries
  one more round before it tries to stop.  A round never ends before its start or after
  the end of the input (lemma \<open>matcher_bounds\<close> below); the test for it is there for the
  termination proof only.
\<close>

function (sequential) matcher :: "bool \<Rightarrow> string \<Rightarrow> rx \<Rightarrow> mstate \<Rightarrow> mstate list" where
  "matcher ic t Empty x = [x]"
| "matcher ic t (Chr c) (e, cap) =
     (if e < length t \<and> canon ic (t ! e) = canon ic c then [(e + 1, cap)] else [])"
| "matcher ic t Dot (e, cap) =
     (if e < length t \<and> \<not> is_line_term (t ! e) then [(e + 1, cap)] else [])"
| "matcher ic t (CSet neg items) (e, cap) =
     (if e < length t \<and> (cset_has ic items (t ! e) \<noteq> neg) then [(e + 1, cap)] else [])"
| "matcher ic t Bol (e, cap) = (if e = 0 then [(e, cap)] else [])"
| "matcher ic t Eol (e, cap) = (if e = length t then [(e, cap)] else [])"
| "matcher ic t WordB (e, cap) =
     (if is_word_at t (int e - 1) \<noteq> is_word_at t (int e) then [(e, cap)] else [])"
| "matcher ic t NotWordB (e, cap) =
     (if is_word_at t (int e - 1) = is_word_at t (int e) then [(e, cap)] else [])"
| "matcher ic t (Seq a b) x = concat (map (matcher ic t b) (matcher ic t a x))"
| "matcher ic t (Alt a b) x = matcher ic t a x @ matcher ic t b x"
| "matcher ic t (Grp n r) (e, cap) =
     map (\<lambda>(e', cap'). (e', (n, substring t e e') # cap')) (matcher ic t r (e, cap))"
| "matcher ic t (Back n) (e, cap) =
     (case capture cap n of
        None \<Rightarrow> [(e, cap)]
      | Some s \<Rightarrow>
          (if e + length s \<le> length t
              \<and> map (canon ic) (substring t e (e + length s)) = map (canon ic) s
           then [(e + length s, cap)] else []))"
| "matcher ic t (Rep mn mx greedy r) (e, cap) =
     (if mx = Some 0 then [(e, cap)]
      else
        let xr = (e, filter (\<lambda>(k, s). k \<notin> groups r) cap);
            again = concat (map (\<lambda>y.
                       if (mn = 0 \<and> fst y = e) \<or> fst y < e \<or> length t < fst y then []
                       else matcher ic t (Rep (mn - 1) (pred_opt mx) greedy r) y)
                     (matcher ic t r xr))
        in if mn \<noteq> 0 then again
           else if greedy then again @ [(e, cap)]
           else (e, cap) # again)"
  by pat_completeness auto
termination
  by (relation "inv_image (less_than <*lex*> less_than <*lex*> less_than)
           (\<lambda>(ic, t, r, x). (rsize r, rmin r, length t - fst x))") auto

declare matcher.simps(13) [simp del]

text \<open>
  RegExpBuiltinExec, the search for a start position: from index \<open>i\<close> on, the first
  position at which the pattern matches, with the first match there.
\<close>

function scan :: "bool \<Rightarrow> string \<Rightarrow> rx \<Rightarrow> nat \<Rightarrow> (nat \<times> mstate) option" where
  "scan ic t r i =
     (if length t < i then None
      else case matcher ic t r (i, no_captures) of
             [] \<Rightarrow> scan ic t r (Suc i)
           | x # xs \<Rightarrow> Some (i, x))"
  by pat_completeness auto
termination
  by (relation "measure (\<lambda>(ic, t, r, i). Suc (length t) - i)") auto

declare scan.simps [simp del]

text \<open>
  A RegExp object: the compiled pattern, its flags and the mutable \<^verbatim>\<open>lastIndex\<close>.  Of
  the flags, \<^verbatim>\<open>g\<close> and \<^verbatim>\<open>i\<close> are modelled.
\<close>

record regexp =
  pat :: rx
  flags :: string
  lastIndex :: nat

definition global :: "regexp \<Rightarrow> bool" where
  "global re = (CHR ''g'' \<in> set (flags re))"

definition ignoreCase :: "regexp \<Rightarrow> bool" where
  "ignoreCase re = (CHR ''i'' \<in> set (flags re))"

text \<open>A match result: \<^verbatim>\<open>match.index\<close>, \<^verbatim>\<open>match[0]\<close> and the captures \<^verbatim>\<open>match[n]\<close>.\<close>

record rmatch =
  m_index :: nat
  m_text :: string
  m_group :: captures

text \<open>
  \<^verbatim>\<open>RegExp.prototype.exec\<close>: a global expression starts at its \<^verbatim>\<open>lastIndex\<close> and stores
  the end of the match there (0 when nothing matches); any other expression starts at 0
  and leaves \<^verbatim>\<open>lastIndex\<close> alone.  The expression is returned with the result, since the
  call changes it.
\<close>

definition RegExp_exec :: "regexp \<Rightarrow> string \<Rightarrow> rmatch option \<times> regexp" where
  "RegExp_exec re t =
     (case scan (ignoreCase re) t (pat re) (if global re then lastIndex re else 0) of
        None \<Rightarrow> (None, if global re then re\<lparr>lastIndex := 0\<rparr> else re)
      | Some (i, (e, cap)) \<Rightarrow>
          (Some \<lparr>m_index = i, m_text = substring t i e, m_group = cap\<rparr>,
           if global re then re\<lparr>lastIndex := e\<rparr> else re))"

text \<open>\<^verbatim>\<open>RegExp.prototype.test\<close>: \<^verbatim>\<open>exec(t) !== null\<close>.\<close>

definition RegExp_test :: "regexp \<Rightarrow> string \<Rightarrow> bool \<times> regexp" where
  "RegExp_test re t = (case RegExp_exec re t of (r, re') \<Rightarrow> (r \<noteq> None, re'))"

subsection \<open>The host's RegExp constructor\<close>

text \<open>
  \<^verbatim>\<open>new RegExp(pattern, flags)\<close> belongs to the JavaScript host, not to this program.  The
  functions below that call it take it as their first argument: a function from the pattern
  text and the flags to either the message of the SyntaxError it throws (\<open>Inl\<close>) or the
  RegExp object it returns (\<open>Inr\<close>).  Statements about an arbitrary query hold for every
  such function.

  \<open>RegExp_new\<close> is the constructor for a fragment of the pattern syntax, used at concrete
  inputs: literal characters, \<^verbatim>\<open>.\<close>, \<^verbatim>\<open>^\<close>, \<^verbatim>\<open>$\<close>, \<^verbatim>\<open>|\<close>, groups \<^verbatim>\<open>( )\<close> and \<^verbatim>\<open>(?: )\<close>, the
  quantifiers \<^verbatim>\<open>* + ?\<close> and their lazy forms, classes \<^verbatim>\<open>[ ]\<close> with ranges and negation, and
  the escapes \<^verbatim>\<open>\d \D \w \W \s \S \b \B \t \n \v \f \r\<close> and escaped punctuation; the flags
  \<^verbatim>\<open>g\<close> and \<^verbatim>\<open>i\<close>.  Anything else is reported as \<open>Inl\<close> with the reason \<open>Unsupported\<close>,
  which a real host does not do.  The wording of the messages is the host's (here in the
  shape V8 gives them); nothing depends on it.
\<close>

type_synonym regexp_ctor = "string \<Rightarrow> string \<Rightarrow> string + regexp"

fun seqs :: "rx list \<Rightarrow> rx" where
  "seqs [] = Empty"
| "seqs [r] = r"
| "seqs (r # rs) = Seq r (seqs rs)"

fun alts :: "rx list \<Rightarrow> rx" where
  "alts [] = Empty"
| "alts [r] = r"
| "alts (r # rs) = Alt r (alts rs)"

definition backslash :: char where
  "backslash = CHR 0x5C"

definition is_syntax_char :: "char \<Rightarrow> bool" where
  "is_syntax_char c = (c \<in> set ''^$.*+?()[]{}|/'' \<or> c = backslash)"

text \<open>An escape inside a class: the item it stands for.\<close>

definition class_escape :: "char \<Rightarrow> citem option" where
  "class_escape d =
     (if d = CHR ''d'' then Some ClsD else if d = CHR ''D'' then Some ClsNotD
      else if d = CHR ''w'' then Some ClsW else if d = CHR ''W'' then Some ClsNotW
      else if d = CHR ''s'' then Some ClsS else if d = CHR ''S'' then Some ClsNotS
      else if d = CHR ''t'' then Some (One (char_of (9::nat)))
      else if d = CHR ''n'' then Some (One (char_of (10::nat)))
      else if d = CHR ''v'' then Some (One (char_of (11::nat)))
      else if d = CHR ''f'' then Some (One (char_of (12::nat)))
      else if d = CHR ''r'' then Some (One (char_of (13::nat)))
      else if d = CHR ''b'' then Some (One (char_of (8::nat)))
      else if is_syntax_char d \<or> d = CHR ''-'' then Some (One d)
      else None)"

text \<open>An escape outside a class: the term, and whether a quantifier may follow it.\<close>

definition atom_escape :: "char \<Rightarrow> (rx \<times> bool) option" where
  "atom_escape d =
     (if d = CHR ''b'' then Some (WordB, False)
      else if d = CHR ''B'' then Some (NotWordB, False)
      else if is_digit d then None
      else (case class_escape d of
              None \<Rightarrow> None
            | Some (One c) \<Rightarrow> Some (Chr c, True)
            | Some it \<Rightarrow> Some (CSet False [it], True)))"

text \<open>
  The parser state: the alternatives finished and the terms read so far in the group being
  read, whether the last term may take a quantifier, the enclosing groups (each with its
  kind, \<open>Some n\<close> for the capturing group \<open>n\<close>, and its own alternatives and terms), the
  number of the next capturing group, and, while a class is being read, whether it is
  negated and its items so far.
\<close>

record pstate =
  p_alts :: "rx list"
  p_terms :: "rx list"
  p_quant :: bool
  p_stack :: "(nat option \<times> rx list \<times> rx list) list"
  p_next :: nat
  p_class :: "(bool \<times> citem list) option"

definition p_init :: pstate where
  "p_init = \<lparr>p_alts = [], p_terms = [], p_quant = False, p_stack = [], p_next = 1,
              p_class = None\<rparr>"

definition p_body :: "pstate \<Rightarrow> rx" where
  "p_body st = alts (p_alts st @ [seqs (p_terms st)])"

definition p_add :: "rx \<Rightarrow> bool \<Rightarrow> pstate \<Rightarrow> pstate" where
  "p_add r q st = st\<lparr>p_terms := p_terms st @ [r], p_quant := q, p_class := None\<rparr>"

definition p_quantify :: "nat \<Rightarrow> nat option \<Rightarrow> bool \<Rightarrow> pstate \<Rightarrow> pstate" where
  "p_quantify mn mx greedy st =
     st\<lparr>p_terms := butlast (p_terms st) @ [Rep mn mx greedy (last (p_terms st))], p_quant := False\<rparr>"

definition p_item :: "bool \<Rightarrow> citem list \<Rightarrow> citem \<Rightarrow> pstate \<Rightarrow> pstate" where
  "p_item neg its it st = st\<lparr>p_class := Some (neg, its @ [it])\<rparr>"

function parse :: "pstate \<Rightarrow> string \<Rightarrow> string + rx" where
  "parse st [] =
     (if p_class st \<noteq> None then Inl ''Unterminated character class''
      else if p_stack st \<noteq> [] then Inl ''Unterminated group''
      else Inr (p_body st))"
| "parse st (c # cs) =
     (case p_class st of
        Some (neg, its) \<Rightarrow>
          (if c = CHR '']'' then parse (p_add (CSet neg its) True st) cs
           else if c = backslash then
             (case cs of
                [] \<Rightarrow> Inl ''Pattern ends with an escape''
              | d # cs' \<Rightarrow>
                  (case class_escape d of
                     None \<Rightarrow> Inl ''Unsupported''
                   | Some it \<Rightarrow> parse (p_item neg its it st) cs'))
           else if take 1 cs = ''-'' \<and> 2 \<le> length cs \<and> cs ! 1 \<noteq> CHR '']'' then
             (if cs ! 1 = backslash then Inl ''Unsupported''
              else if code (cs ! 1) < code c then Inl ''Range out of order in character class''
              else parse (p_item neg its (Span c (cs ! 1)) st) (drop 2 cs))
           else parse (p_item neg its (One c) st) cs)
      | None \<Rightarrow>
          (if c = CHR ''('' then
             (if take 2 cs = ''?:'' then
                parse (st\<lparr>p_alts := [], p_terms := [], p_quant := False,
                         p_stack := (None, p_alts st, p_terms st) # p_stack st\<rparr>) (drop 2 cs)
              else if take 1 cs = ''?'' then Inl ''Unsupported''
              else
                parse (st\<lparr>p_alts := [], p_terms := [], p_quant := False,
                         p_stack := (Some (p_next st), p_alts st, p_terms st) # p_stack st,
                         p_next := Suc (p_next st)\<rparr>) cs)
           else if c = CHR '')'' then
             (case p_stack st of
                [] \<Rightarrow> Inl ''Unmatched )''
              | (k, as, ts) # stk \<Rightarrow>
                  parse (st\<lparr>p_alts := as,
                           p_terms := ts @ [case k of None \<Rightarrow> p_body st | Some n \<Rightarrow> Grp n (p_body st)],
                           p_quant := True, p_stack := stk\<rparr>) cs)
           else if c = CHR ''|'' then
             parse (st\<lparr>p_alts := p_alts st @ [seqs (p_terms st)], p_terms := [], p_quant := False\<rparr>) cs
           else if c = CHR ''*'' \<or> c = CHR ''+'' \<or> c = CHR ''?'' then
             (if \<not> p_quant st then Inl ''Nothing to repeat''
              else
                parse (p_quantify (if c = CHR ''+'' then 1 else 0)
                                  (if c = CHR ''?'' then Some 1 else None)
                                  (take 1 cs \<noteq> ''?'') st)
                      (if take 1 cs = ''?'' then drop 1 cs else cs))
           else if c = CHR ''['' then
             (if take 1 cs = ''^'' then parse (st\<lparr>p_class := Some (True, [])\<rparr>) (drop 1 cs)
              else parse (st\<lparr>p_class := Some (False, [])\<rparr>) cs)
           else if c = backslash then
             (case cs of
                [] \<Rightarrow> Inl ''Pattern ends with an escape''
              | d # cs' \<Rightarrow>
                  (case atom_escape d of
                     None \<Rightarrow> Inl ''Unsupported''
                   | Some (r, q) \<Rightarrow> parse (p_add r q st) cs'))
           else if c = CHR ''^'' then parse (p_add Bol False st) cs
           else if c = CHR ''$'' then parse (p_add Eol False st) cs
           else if c = CHR ''.'' then parse (p_add Dot True st) cs
           else if c = CHR ''{'' then Inl ''Unsupported''
           else parse (p_add (Chr c) True st) cs))"
  by pat_completeness auto
termination
  by (relation "measure (\<lambda>(st, cs). length cs)") auto

declare parse.simps [simp del]

definition valid_flags :: "string \<Rightarrow> bool" where
  "valid_flags fl = (distinct fl \<and> set fl \<subseteq> set ''gi'')"

definition RegExp_new :: regexp_ctor where
  "RegExp_new p fl =
     (if \<not> valid_flags fl then Inl (''Invalid flags supplied to RegExp constructor: '' @ fl)
      else case parse p_init p of
             Inl reason \<Rightarrow> Inl (''Invalid regular expression: /'' @ p @ ''/'' @ fl @ '': '' @ reason)
           | Inr r \<Rightarrow> Inr \<lparr>pat = r, flags = fl, lastIndex = 0\<rparr>)"

subsection \<open>Field validators (validators.js)\<close>

text \<open>\<^verbatim>\<open>!x\<close> and \<^verbatim>\<open>typeof x === 'string'\<close>.\<close>

fun truthy :: "jsval \<Rightarrow> bool" where
  "truthy JUndefined = False"
| "truthy JNull = False"
| "truthy (JBool b) = b"
| "truthy (JNum n) = (n \<noteq> 0)"
| "truthy (JStr s) = (s \<noteq> [])"

fun is_string :: "jsval \<Rightarrow> bool" where
  "is_string (JStr s) = True"
| "is_string v = False"

fun str :: "jsval \<Rightarrow> string" where
  "str (JStr s) = s"
| "str v = []"

record vresult =
  valid :: bool
  error :: string

text \<open>
  The table \<^verbatim>\<open>patterns\<close>.  None of its expressions is global, so \<^verbatim>\<open>test\<close> never changes
  them (lemma \<open>RegExp_test_not_global\<close> below) and \<open>test\<close> drops the returned object.
\<close>

definition test :: "regexp \<Rightarrow> string \<Rightarrow> bool" where
  "test re t = fst (RegExp_test re t)"

definition digit :: rx where
  "digit = CSet False [ClsD]"

definition nonspace :: rx where
  "nonspace = CSet False [ClsNotS]"

definition letters :: rx where
  "letters = CSet False [Span CHR ''A'' CHR ''Z'', Span CHR ''a'' CHR ''z'']"

text \<open>\<^verbatim>\<open>/^\S(?:.*\S)?$/\<close>\<close>

definition patterns_title :: regexp where
  "patterns_title =
     \<lparr>pat = seqs [Bol, nonspace, Rep 0 (Some 1) True (Seq (Rep 0 None True Dot) nonspace), Eol],
      flags = [], lastIndex = 0\<rparr>"

text \<open>\<^verbatim>\<open>/^(0|[1-9]\d*)(\.\d{1,2})?$/\<close>\<close>

definition patterns_duration :: regexp where
  "patterns_duration =
     \<lparr>pat = seqs [Bol,
                  Grp 1 (Alt (Chr CHR ''0'')
                             (Seq (CSet False [Span CHR ''1'' CHR ''9'']) (Rep 0 None True digit))),
                  Rep 0 (Some 1) True (Grp 2 (Seq (Chr CHR ''.'') (Rep 1 (Some 2) True digit))),
                  Eol],
      flags = [], lastIndex = 0\<rparr>"

text \<open>\<^verbatim>\<open>/^\d{4}-(0[1-9]|1[0-2])-(0[1-9]|[12]\d|3[01])$/\<close>\<close>

definition patterns_date :: regexp where
  "patterns_date =
     \<lparr>pat = seqs [Bol, Rep 4 (Some 4) True digit, Chr CHR ''-'',
                  Grp 1 (Alt (Seq (Chr CHR ''0'') (CSet False [Span CHR ''1'' CHR ''9'']))
                             (Seq (Chr CHR ''1'') (CSet False [Span CHR ''0'' CHR ''2'']))),
                  Chr CHR ''-'',
                  Grp 2 (alts [Seq (Chr CHR ''0'') (CSet False [Span CHR ''1'' CHR ''9'']),
                               Seq (CSet False [One CHR ''1'', One CHR ''2'']) digit,
                               Seq (Chr CHR ''3'') (CSet False [One CHR ''0'', One CHR ''1''])]),
                  Eol],
      flags = [], lastIndex = 0\<rparr>"

text \<open>\<^verbatim>\<open>/^[A-Za-z]+(?:[ -][A-Za-z]+)*$/\<close>\<close>

definition patterns_tag :: regexp where
  "patterns_tag =
     \<lparr>pat = seqs [Bol, Rep 1 None True letters,
                  Rep 0 None True (Seq (CSet False [One CHR '' '', One CHR ''-''])
                                       (Rep 1 None True letters)),
                  Eol],
      flags = [], lastIndex = 0\<rparr>"

text \<open>\<^verbatim>\<open>/\b(\w+)\s+\1\b/i\<close>\<close>

definition patterns_duplicateWord :: regexp where
  "patterns_duplicateWord =
     \<lparr>pat = seqs [WordB, Grp 1 (Rep 1 None True (CSet False [ClsW])),
                  Rep 1 None True (CSet False [ClsS]), Back 1, WordB],
      flags = ''i'', lastIndex = 0\<rparr>"

definition validateTitle :: "jsval \<Rightarrow> vresult" where
  "validateTitle title =
     (if \<not> truthy title \<or> \<not> is_string title then
        \<lparr>valid = False, error = ''Title is required''\<rparr>
      else
        let trimmed = trim (str title) in
        if length trimmed = 0 then
          \<lparr>valid = False, error = ''Title cannot be empty''\<rparr>
        else if length trimmed > 100 then
          \<lparr>valid = False, error = ''Title must be 100 characters or less''\<rparr>
        else if \<not> test patterns_title trimmed then
          \<lparr>valid = False,
           error = ''Title cannot have leading/trailing spaces or consecutive spaces''\<rparr>
        else if test patterns_duplicateWord trimmed then
          \<lparr>valid = False, error = ''Title contains duplicate consecutive words''\<rparr>
        else \<lparr>valid = True, error = ''''\<rparr>)"

text \<open>
  \<^verbatim>\<open>parseFloat\<close> on the strings that reach it, those that match \<^verbatim>\<open>patterns.duration\<close>:
  digits, then possibly a point and more digits.  The value is kept exact; a double
  compares with 0 and with 10000 as the exact value does, since 10000 is a double and
  rounding is monotone.
\<close>

definition digits_val :: "string \<Rightarrow> nat" where
  "digits_val ds = foldl (\<lambda>n c. 10 * n + (code c - 48)) 0 ds"

definition parseFloat :: "string \<Rightarrow> rat" where
  "parseFloat s =
     (let ip = takeWhile is_digit s; rest = dropWhile is_digit s
      in case rest of
           c # fs \<Rightarrow>
             (if c = CHR ''.'' then
                of_nat (digits_val ip)
                  + of_nat (digits_val (takeWhile is_digit fs)) / 10 ^ length (takeWhile is_digit fs)
              else of_nat (digits_val ip))
         | [] \<Rightarrow> of_nat (digits_val ip))"

definition validateDuration :: "jsval \<Rightarrow> vresult" where
  "validateDuration duration =
     (if \<not> truthy duration \<or> \<not> is_string duration then
        \<lparr>valid = False, error = ''Duration is required''\<rparr>
      else
        let trimmed = trim (str duration) in
        if length trimmed = 0 then
          \<lparr>valid = False, error = ''Duration cannot be empty''\<rparr>
        else if \<not> test patterns_duration trimmed then
          \<lparr>valid = False,
           error = ''Duration must be a positive number with up to 2 decimal places''\<rparr>
        else
          let num = parseFloat trimmed in
          if num < 0 then \<lparr>valid = False, error = ''Duration must be positive''\<rparr>
          else if num > 10000 then
            \<lparr>valid = False, error = ''Duration must be less than 10000''\<rparr>
          else \<lparr>valid = True, error = ''''\<rparr>)"

text \<open>
  \<^verbatim>\<open>new Date(s).getTime()\<close> belongs to the host as well: \<open>validateDate\<close> takes it as its
  first argument, a function from the text to the time value, \<open>None\<close> for NaN.
\<close>

type_synonym date_ctor = "string \<Rightarrow> int option"

definition validateDate :: "date_ctor \<Rightarrow> jsval \<Rightarrow> vresult" where
  "validateDate Date date =
     (if \<not> truthy date \<or> \<not> is_string date then
        \<lparr>valid = False, error = ''Date is required''\<rparr>
      else if \<not> test patterns_date (str date) then
        \<lparr>valid = False, error = ''Date must be in YYYY-MM-DD format''\<rparr>
      else if Date (str date @ ''T00:00:00Z'') = None then
        \<lparr>valid = False, error = ''Invalid date''\<rparr>
      else \<lparr>valid = True, error = ''''\<rparr>)"

definition validateTag :: "jsval \<Rightarrow> vresult" where
  "validateTag tag =
     (if \<not> truthy tag \<or> \<not> is_string tag then
        \<lparr>valid = False, error = ''Tag is required''\<rparr>
      else
        let trimmed = trim (str tag) in
        if length trimmed = 0 then
          \<lparr>valid = False, error = ''Tag cannot be empty''\<rparr>
        else if length trimmed > 50 then
          \<lparr>valid = False, error = ''Tag must be 50 characters or less''\<rparr>
        else if \<not> test patterns_tag trimmed then
          \<lparr>valid = False, error = ''Tag can only contain letters, spaces, and hyphens''\<rparr>
        else \<lparr>valid = True, error = ''''\<rparr>)"

text \<open>
  \<^verbatim>\<open>compileRegex(pattern, flags)\<close>; the caller passes the default \<^verbatim>\<open>'i'\<close> itself.  The
  \<^verbatim>\<open>try\<close> block turns whatever the constructor throws into the second component.
\<close>

definition compileRegex :: "regexp_ctor \<Rightarrow> jsval \<Rightarrow> string \<Rightarrow> regexp option \<times> string" where
  "compileRegex RegExp pattern fl =
     (if \<not> truthy pattern \<or> \<not> is_string pattern then (None, '''')
      else case RegExp (str pattern) fl of
             Inr regex \<Rightarrow> (Some regex, '''')
           | Inl message \<Rightarrow> (None, ''Invalid regex: '' @ message))"

subsection \<open>The host's Date constructor\<close>

text \<open>
  Two hosts, on the one shape of text \<open>validateDate\<close> hands over,
  \<^verbatim>\<open>YYYY-MM-DDTHH:mm:ssZ\<close> (any other text is NaN here).  ECMA-262 gives the day of the
  month the range 01 to 31 and leaves open what a day beyond the end of the month means.
  With \<open>rollover\<close> (V8: Chrome, Node.js) such a day counts on into the next month, as
  MakeDay does; without it (SpiderMonkey: Firefox) the text is refused.
\<close>

definition leap_year :: "nat \<Rightarrow> bool" where
  "leap_year y = (y mod 4 = 0 \<and> (y mod 100 \<noteq> 0 \<or> y mod 400 = 0))"

definition days_in_month :: "nat \<Rightarrow> nat \<Rightarrow> nat" where
  "days_in_month y mo =
     (if mo = 2 then (if leap_year y then 29 else 28)
      else if mo = 4 \<or> mo = 6 \<or> mo = 9 \<or> mo = 11 then 30 else 31)"

text \<open>DayFromYear of ECMA-262.\<close>

definition day_from_year :: "int \<Rightarrow> int" where
  "day_from_year y =
     365 * (y - 1970) + (y - 1969) div 4 - (y - 1901) div 100 + (y - 1601) div 400"

definition make_day :: "nat \<Rightarrow> nat \<Rightarrow> nat \<Rightarrow> int" where
  "make_day y mo d =
     day_from_year (int y) + int (sum_list (map (days_in_month y) [1..<mo])) + int d - 1"

definition Date_parse :: "bool \<Rightarrow> date_ctor" where
  "Date_parse rollover s =
     (if length s = 20
         \<and> list_all is_digit (take 4 s) \<and> s ! 4 = CHR ''-''
         \<and> list_all is_digit (substring s 5 7) \<and> s ! 7 = CHR ''-''
         \<and> list_all is_digit (substring s 8 10) \<and> s ! 10 = CHR ''T''
         \<and> list_all is_digit (substring s 11 13) \<and> s ! 13 = CHR '':''
         \<and> list_all is_digit (substring s 14 16) \<and> s ! 16 = CHR '':''
         \<and> list_all is_digit (substring s 17 19) \<and> s ! 19 = CHR ''Z''
      then
        let y = digits_val (take 4 s); mo = digits_val (substring s 5 7);
            d = digits_val (substring s 8 10); h = digits_val (substring s 11 13);
            mi = digits_val (substring s 14 16); sec = digits_val (substring s 17 19)
        in if 1 \<le> mo \<and> mo \<le> 12 \<and> 1 \<le> d \<and> d \<le> (if rollover then 31 else days_in_month y mo)
              \<and> (h \<le> 23 \<or> (h = 24 \<and> mi = 0 \<and> sec = 0)) \<and> mi \<le> 59 \<and> sec \<le> 59
           then Some (make_day y mo d * 86400000 + int ((h * 3600 + mi * 60 + sec) * 1000))
           else None
      else None)"

subsection \<open>Search (the search module)\<close>

record task =
  task_id :: string
  title :: string
  dueDate :: string
  duration :: rat
  tag :: string
  createdAt :: string
  updatedAt :: string

text \<open>
  Arrays are objects: a function that is handed an array is handed a reference to it.  The
  store lists the arrays allocated so far, a reference is an index into it, and a new
  array goes to the end.
\<close>

type_synonym ref = nat
type_synonym store = "task list list"

definition alloc :: "store \<Rightarrow> task list \<Rightarrow> ref \<times> store" where
  "alloc h xs = (length h, h @ [xs])"

text \<open>
  \<^verbatim>\<open>fields.some(field => regex.test(String(task[field] || '')))\<close> over the values of the
  fields: the first value that matches ends the search, and every \<^verbatim>\<open>test\<close> leaves its
  \<^verbatim>\<open>lastIndex\<close> to the next one.  The fields that are searched hold strings, and for a
  string \<^verbatim>\<open>v\<close> the text \<^verbatim>\<open>String(v || '')\<close> is \<^verbatim>\<open>v\<close> itself.
\<close>

fun some_test :: "regexp \<Rightarrow> string list \<Rightarrow> bool \<times> regexp" where
  "some_test re [] = (False, re)"
| "some_test re (v # vs) =
     (case RegExp_test re v of
        (True, re') \<Rightarrow> (True, re')
      | (False, re') \<Rightarrow> some_test re' vs)"

text \<open>\<^verbatim>\<open>tasks.filter(task => ...)\<close> with a callback that changes the expression.\<close>

fun filter_tasks :: "(task \<Rightarrow> string) list \<Rightarrow> regexp \<Rightarrow> task list \<Rightarrow> task list \<times> regexp" where
  "filter_tasks flds re [] = ([], re)"
| "filter_tasks flds re (t # ts) =
     (case some_test re (map (\<lambda>field. field t) flds) of
        (keep, re') \<Rightarrow>
          (case filter_tasks flds re' ts of
             (kept, re'') \<Rightarrow> (if keep then t # kept else kept, re'')))"

text \<open>The default of the parameter \<^verbatim>\<open>fields\<close>: \<^verbatim>\<open>['title', 'tag', 'dueDate']\<close>.\<close>

definition default_fields :: "(task \<Rightarrow> string) list" where
  "default_fields = [title, tag, dueDate]"

text \<open>
  \<open>searchTasks\<close> returns the reference to its result, the store, and the expression as
  the calls of \<^verbatim>\<open>test\<close> have left it.
\<close>

definition searchTasks ::
  "store \<Rightarrow> ref \<Rightarrow> regexp option \<Rightarrow> (task \<Rightarrow> string) list \<Rightarrow> ref \<times> store \<times> regexp option" where
  "searchTasks h tasks regex flds =
     (case regex of
        None \<Rightarrow> (tasks, h, None)
      | Some re \<Rightarrow>
          (case filter_tasks flds re (h ! tasks) of
             (kept, re') \<Rightarrow> (case alloc h kept of (r, h') \<Rightarrow> (r, h', Some re'))))"

text \<open>
  The two expression literals of \<open>parseQuery\<close>, \<^verbatim>\<open>/^@tag:(\w+)$/i\<close> and
  \<^verbatim>\<open>/^@date:(\d{4}-\d{2}-\d{2})$/\<close>; each evaluation of a literal is a new object.
\<close>

definition tag_query :: regexp where
  "tag_query =
     \<lparr>pat = seqs [Bol, Chr CHR ''@'', Chr CHR ''t'', Chr CHR ''a'', Chr CHR ''g'', Chr CHR '':'',
                  Grp 1 (Rep 1 None True (CSet False [ClsW])), Eol],
      flags = ''i'', lastIndex = 0\<rparr>"

definition date_query :: regexp where
  "date_query =
     \<lparr>pat = seqs [Bol, Chr CHR ''@'', Chr CHR ''d'', Chr CHR ''a'', Chr CHR ''t'', Chr CHR ''e'',
                  Chr CHR '':'',
                  Grp 1 (seqs [Rep 4 (Some 4) True digit, Chr CHR ''-'', Rep 2 (Some 2) True digit,
                               Chr CHR ''-'', Rep 2 (Some 2) True digit]),
                  Eol],
      flags = [], lastIndex = 0\<rparr>"

text \<open>\<^verbatim>\<open>s.match(re)\<close> for an expression that is not global: \<^verbatim>\<open>re.exec(s)\<close>.\<close>

definition String_match :: "string \<Rightarrow> regexp \<Rightarrow> rmatch option" where
  "String_match s re = fst (RegExp_exec re s)"

text \<open>\<^verbatim>\<open>match[n]\<close>: the capture, or \<^verbatim>\<open>undefined\<close> when the group took no part.\<close>

definition group_val :: "rmatch \<Rightarrow> nat \<Rightarrow> jsval" where
  "group_val mt n = (case capture (m_group mt) n of None \<Rightarrow> JUndefined | Some s \<Rightarrow> JStr s)"

text \<open>\<open>parseQuery\<close> returns \<^verbatim>\<open>{command, pattern}\<close>, with \<open>None\<close> for \<^verbatim>\<open>null\<close>.\<close>

definition parseQuery :: "string \<Rightarrow> string option \<times> jsval" where
  "parseQuery query =
     (if query = [] then (None, JStr '''')
      else case String_match query tag_query of
             Some tagMatch \<Rightarrow> (Some ''tag'', group_val tagMatch 1)
           | None \<Rightarrow>
               (case String_match query date_query of
                  Some dateMatch \<Rightarrow> (Some ''date'', group_val dateMatch 1)
                | None \<Rightarrow> (None, JStr query)))"

definition applyCommand :: "store \<Rightarrow> ref \<Rightarrow> string \<Rightarrow> jsval \<Rightarrow> ref \<times> store" where
  "applyCommand h tasks command pattern =
     (if command = ''tag'' then alloc h (filter (\<lambda>t. JStr (tag t) = pattern) (h ! tasks))
      else if command = ''date'' then alloc h (filter (\<lambda>t. JStr (dueDate t) = pattern) (h ! tasks))
      else (tasks, h))"

record search_result =
  r_tasks :: ref
  r_error :: string

definition performSearch ::
  "regexp_ctor \<Rightarrow> store \<Rightarrow> ref \<Rightarrow> string \<Rightarrow> bool \<Rightarrow> search_result \<times> store" where
  "performSearch RegExp h tasks query caseSensitive =
     (if query = [] then (\<lparr>r_tasks = tasks, r_error = ''''\<rparr>, h)
      else
        case parseQuery query of
          (Some command, pattern) \<Rightarrow>
            (case applyCommand h tasks command pattern of
               (filtered, h') \<Rightarrow> (\<lparr>r_tasks = filtered, r_error = ''''\<rparr>, h'))
        | (None, pattern) \<Rightarrow>
            (case compileRegex RegExp pattern (if caseSensitive then ''g'' else ''gi'') of
               (None, err) \<Rightarrow>
                 (case alloc h [] of (none, h') \<Rightarrow> (\<lparr>r_tasks = none, r_error = err\<rparr>, h'))
             | (Some regex, err) \<Rightarrow>
                 (case searchTasks h tasks (Some regex) default_fields of
                    (filtered, h', regex') \<Rightarrow> (\<lparr>r_tasks = filtered, r_error = ''''\<rparr>, h'))))"

subsection \<open>Matches and highlighting (validators.js)\<close>

record MatchSpan =
  ms_text :: string
  ms_index :: nat
  ms_length :: nat

text \<open>
  The loop of \<open>findMatches\<close>, \<^verbatim>\<open>while ((match = regexWithG.exec(text)) !== null)\<close>.  Nothing
  in it bounds the number of rounds, so it is a partial function: \<open>None\<close> is a loop that
  never ends.
\<close>

partial_function (option) findMatches_loop ::
  "regexp \<Rightarrow> string \<Rightarrow> MatchSpan list \<Rightarrow> MatchSpan list option" where
  "findMatches_loop regexWithG text matches =
     (case RegExp_exec regexWithG text of
        (None, re') \<Rightarrow> Some matches
      | (Some mt, re') \<Rightarrow>
          findMatches_loop re' text
            (matches @ [\<lparr>ms_text = m_text mt, ms_index = m_index mt,
                          ms_length = length (m_text mt)\<rparr>]))"

text \<open>
  \<^verbatim>\<open>new RegExp(regex.source, ...)\<close> compiles the pattern of \<open>regex\<close> once more: the same
  pattern in a new object, with \<^verbatim>\<open>lastIndex\<close> 0.
\<close>

definition findMatches :: "string \<Rightarrow> regexp option \<Rightarrow> MatchSpan list option" where
  "findMatches text regex =
     (case regex of
        None \<Rightarrow> Some []
      | Some re \<Rightarrow>
          (if text = [] then Some []
           else findMatches_loop
                  \<lparr>pat = pat re,
                   flags = (if CHR ''g'' \<in> set (flags re) then flags re else flags re @ ''g''),
                   lastIndex = 0\<rparr> text []))"

text \<open>
  \<open>escapeHtml\<close> writes the text into a \<^verbatim>\<open>div\<close> as \<^verbatim>\<open>textContent\<close> and reads \<^verbatim>\<open>innerHTML\<close>
  back: the serialisation of a text node, which replaces \<^verbatim>\<open>&\<close>, \<^verbatim>\<open><\<close>, \<^verbatim>\<open>>\<close> and the
  no-break space.
\<close>

definition escapeHtml :: "string \<Rightarrow> string" where
  "escapeHtml text =
     concat (map (\<lambda>c. if c = CHR ''&'' then ''&amp;''
                       else if c = CHR ''<'' then ''&lt;''
                       else if c = CHR ''>'' then ''&gt;''
                       else if code c = 160 then ''&nbsp;''
                       else [c]) text)"

subsection \<open>The shapes the specification speaks of\<close>

text \<open>
  These definitions follow the words of the specification, not the code: they say what a
  query or a date looks like, character by character, and the theorems below compare the
  regular expressions of the code with them.

  A tag command: \<^verbatim>\<open>@tag:\<close> in any mix of upper and lower case, then one or more characters
  that are letters, digits or the underscore, and nothing else.
\<close>

definition tag_command_shape :: "string \<Rightarrow> bool" where
  "tag_command_shape q =
     (5 < length q \<and> q ! 0 = CHR ''@'' \<and> q ! 1 \<in> set ''tT'' \<and> q ! 2 \<in> set ''aA''
      \<and> q ! 3 \<in> set ''gG'' \<and> q ! 4 = CHR '':'' \<and> list_all is_word (drop 5 q))"

text \<open>
  A date command: \<^verbatim>\<open>@date:\<close>, then four digits, a hyphen, two digits, a hyphen, two digits,
  and nothing else.
\<close>

definition date_command_shape :: "string \<Rightarrow> bool" where
  "date_command_shape q =
     (length q = 16 \<and> take 6 q = ''@date:''
      \<and> list_all is_digit (substring q 6 10) \<and> q ! 10 = CHR ''-''
      \<and> list_all is_digit (substring q 11 13) \<and> q ! 13 = CHR ''-''
      \<and> list_all is_digit (substring q 14 16))"

text \<open>
  The shape \<^verbatim>\<open>YYYY-MM-DD\<close> of \<^verbatim>\<open>patterns.date\<close>: four digits, a month from 01 to 12 and a day
  from 01 to 31, whatever the month.
\<close>

definition month_ok :: "char \<Rightarrow> char \<Rightarrow> bool" where
  "month_ok a b = ((a = CHR ''0'' \<and> 49 \<le> code b \<and> code b \<le> 57)
                   \<or> (a = CHR ''1'' \<and> 48 \<le> code b \<and> code b \<le> 50))"

definition day_ok :: "char \<Rightarrow> char \<Rightarrow> bool" where
  "day_ok a b = ((a = CHR ''0'' \<and> 49 \<le> code b \<and> code b \<le> 57)
                 \<or> ((a = CHR ''1'' \<or> a = CHR ''2'') \<and> is_digit b)
                 \<or> (a = CHR ''3'' \<and> (b = CHR ''0'' \<or> b = CHR ''1'')))"

definition date_shape :: "string \<Rightarrow> bool" where
  "date_shape s =
     (length s = 10 \<and> list_all is_digit (take 4 s) \<and> s ! 4 = CHR ''-''
      \<and> month_ok (s ! 5) (s ! 6) \<and> s ! 7 = CHR ''-'' \<and> day_ok (s ! 8) (s ! 9))"

subsection \<open>Inputs used below\<close>

text \<open>Two tasks, and the expression that \<open>compileRegex\<close> returns for \<^verbatim>\<open>x*\<close> and the flags \<^verbatim>\<open>gi\<close>.\<close>

definition exam_task_1 :: task where
  "exam_task_1 = \<lparr>task_id = ''task_1'', title = ''Final exam'', dueDate = ''2025-09-29'',
                   duration = 120, tag = ''Academic'',
                   createdAt = ''2025-09-01T10:00:00.000Z'', updatedAt = ''2025-09-01T10:00:00.000Z''\<rparr>"

definition exam_task_2 :: task where
  "exam_task_2 = \<lparr>task_id = ''task_2'', title = ''exam'', dueDate = ''2025-09-30'',
                   duration = 60, tag = ''Academic'',
                   createdAt = ''2025-09-01T10:00:00.000Z'', updatedAt = ''2025-09-01T10:00:00.000Z''\<rparr>"

definition star_x :: regexp where
  "star_x = \<lparr>pat = Rep 0 None True (Chr CHR ''x''), flags = ''gi'', lastIndex = 0\<rparr>"

subsection \<open>Facts about the matcher\<close>

text \<open>A match ends at or after its start and inside the input.\<close>

lemma matcher_bounds:
  "y \<in> set (matcher ic t r x) \<Longrightarrow> fst x \<le> length t \<Longrightarrow> fst x \<le> fst y \<and> fst y \<le> length t"
proof (induction ic t r x arbitrary: y rule: matcher.induct)
  case (9 ic t a b x)
  from "9.prems"(1) obtain z where z: "z \<in> set (matcher ic t a x)" and y: "y \<in> set (matcher ic t b z)"
    by auto
  from "9.IH"(1)[OF z "9.prems"(2)] have zb: "fst x \<le> fst z \<and> fst z \<le> length t" .
  from "9.IH"(2)[OF z y] zb show ?case by simp
next
  case (10 ic t a b x)
  then show ?case by (cases y) auto
next
  case (11 ic t n r e cap)
  then show ?case by fastforce
next
  case (12 ic t n e cap)
  then show ?case by (auto split: option.splits if_splits)
next
  case (13 ic t mn mx greedy r e cap)
  show ?case
  proof (cases "mx = Some 0")
    case True
    with "13.prems" show ?thesis by (simp add: matcher.simps(13))
  next
    case False
    define xr where "xr = (e, filter (\<lambda>(k, s). k \<notin> groups r) cap)"
    from "13.prems"(1) False
    have "y = (e, cap) \<or> (\<exists>z \<in> set (matcher ic t r xr).
             \<not> ((mn = 0 \<and> fst z = e) \<or> fst z < e \<or> length t < fst z)
             \<and> y \<in> set (matcher ic t (Rep (mn - 1) (pred_opt mx) greedy r) z))"
      by (auto simp: matcher.simps(13) xr_def Let_def split: if_splits)
    then show ?thesis
    proof
      assume "y = (e, cap)"
      with "13.prems"(2) show ?thesis by simp
    next
      assume "\<exists>z \<in> set (matcher ic t r xr).
             \<not> ((mn = 0 \<and> fst z = e) \<or> fst z < e \<or> length t < fst z)
             \<and> y \<in> set (matcher ic t (Rep (mn - 1) (pred_opt mx) greedy r) z)"
      then obtain z where z: "z \<in> set (matcher ic t r xr)"
        and g: "\<not> ((mn = 0 \<and> fst z = e) \<or> fst z < e \<or> length t < fst z)"
        and y: "y \<in> set (matcher ic t (Rep (mn - 1) (pred_opt mx) greedy r) z)" by blast
      from g have zl: "fst z \<le> length t" and ez: "e \<le> fst z" by auto
      from "13.IH"(2)[OF False xr_def z g y zl] ez show ?thesis by simp
    qed
  qed
qed (auto split: if_splits)

lemma scan_Some:
  "scan ic t r i = Some (k, y) \<Longrightarrow>
     i \<le> k \<and> k \<le> fst y \<and> fst y \<le> length t
       \<and> matcher ic t r (k, no_captures) \<noteq> [] \<and> y = hd (matcher ic t r (k, no_captures))"
proof (induction ic t r i rule: scan.induct)
  case (1 ic t r i)
  show ?case
  proof (cases "length t < i")
    case True
    with "1.prems" show ?thesis by (simp add: scan.simps)
  next
    case False
    show ?thesis
    proof (cases "matcher ic t r (i, no_captures)")
      case Nil
      with False "1.prems" have "scan ic t r (Suc i) = Some (k, y)"
        by (simp add: scan.simps[of ic t r i])
      from "1.IH"[OF False Nil this] show ?thesis by auto
    next
      case (Cons x xs)
      with False "1.prems" have kx: "k = i" "y = x"
        by (simp_all add: scan.simps[of ic t r i])
      from Cons have "x \<in> set (matcher ic t r (i, no_captures))" by simp
      from matcher_bounds[OF this] False have "i \<le> fst x \<and> fst x \<le> length t" by simp
      with kx Cons show ?thesis by simp
    qed
  qed
qed

lemma RegExp_exec_global:
  assumes "RegExp_exec re t = (Some mt, re')" and "global re"
  shows "lastIndex re \<le> m_index mt" and "lastIndex re' = m_index mt + length (m_text mt)"
    and "lastIndex re' \<le> length t" and "re' = re\<lparr>lastIndex := lastIndex re'\<rparr>"
proof -
  from assms obtain k e cap where
    s: "scan (ignoreCase re) t (pat re) (lastIndex re) = Some (k, (e, cap))"
    and mt: "mt = \<lparr>m_index = k, m_text = substring t k e, m_group = cap\<rparr>"
    and re': "re' = re\<lparr>lastIndex := e\<rparr>"
    by (auto simp: RegExp_exec_def split: option.splits)
  from scan_Some[OF s] have b: "lastIndex re \<le> k" "k \<le> e" "e \<le> length t" by simp_all
  show "lastIndex re \<le> m_index mt" using mt b by simp
  show "lastIndex re' = m_index mt + length (m_text mt)"
    using mt re' b by (simp add: substring_def)
  show "lastIndex re' \<le> length t" using re' b by simp
  show "re' = re\<lparr>lastIndex := lastIndex re'\<rparr>" using re' by simp
qed

lemma RegExp_exec_not_global: "\<not> global re \<Longrightarrow> snd (RegExp_exec re t) = re"
  by (simp add: RegExp_exec_def split: option.splits)

lemma RegExp_test_not_global: "\<not> global re \<Longrightarrow> snd (RegExp_test re t) = re"
  using RegExp_exec_not_global[of re t] by (cases "RegExp_exec re t") (simp add: RegExp_test_def)

lemma replace_results_progress:
  assumes "(Some mt, re') = RegExp_exec re t" and "global re"
  shows "Suc (length t) - lastIndex (if m_text mt = [] then re'\<lparr>lastIndex := Suc (lastIndex re')\<rparr> else re')
           < Suc (length t) - lastIndex re"
proof -
  from assms(1) have e: "RegExp_exec re t = (Some mt, re')" by simp
  note b = RegExp_exec_global[OF e assms(2)]
  show ?thesis using b(1,2,3) by (cases "m_text mt") auto
qed

subsection \<open>Highlighting (validators.js)\<close>

text \<open>
  \<^verbatim>\<open>text.replace(regex, fn)\<close>, that is \<^verbatim>\<open>RegExp.prototype[Symbol.replace]\<close>.  It first collects
  the matches: one for an expression that is not global; for a global one it calls \<^verbatim>\<open>exec\<close>
  until that fails, and after an empty match it moves \<^verbatim>\<open>lastIndex\<close> on by one itself.
\<close>

function replace_results :: "regexp \<Rightarrow> string \<Rightarrow> rmatch list" where
  "replace_results re t =
     (case RegExp_exec re t of
        (None, re') \<Rightarrow> []
      | (Some mt, re') \<Rightarrow>
          (if \<not> global re then [mt]
           else mt # replace_results
                       (if m_text mt = [] then re'\<lparr>lastIndex := Suc (lastIndex re')\<rparr> else re') t))"
  by pat_completeness auto
termination
  by (relation "measure (\<lambda>(re, t). Suc (length t) - lastIndex re)")
     (insert replace_results_progress, auto)

declare replace_results.simps [simp del]

text \<open>
  Then it builds the result: the text between the matches as it is, and each match replaced
  by what the callback returns for it.
\<close>

fun replace_build :: "string \<Rightarrow> nat \<Rightarrow> rmatch list \<Rightarrow> (string \<Rightarrow> string) \<Rightarrow> string" where
  "replace_build t pos [] f = drop pos t"
| "replace_build t pos (mt # ms) f =
     (if pos \<le> m_index mt then
        substring t pos (m_index mt) @ f (m_text mt)
          @ replace_build t (m_index mt + length (m_text mt)) ms f
      else replace_build t pos ms f)"

definition String_replace :: "string \<Rightarrow> regexp \<Rightarrow> (string \<Rightarrow> string) \<Rightarrow> string" where
  "String_replace t re f =
     replace_build t 0 (replace_results (if global re then re\<lparr>lastIndex := 0\<rparr> else re) t) f"

text \<open>
  \<open>highlightMatches\<close> returns the text it builds.  (The call also leaves a global
  expression with \<^verbatim>\<open>lastIndex\<close> 0.)
\<close>

definition highlightMatches :: "string \<Rightarrow> regexp option \<Rightarrow> string" where
  "highlightMatches text regex =
     (case regex of
        None \<Rightarrow> text
      | Some re \<Rightarrow>
          (if text = [] then text
           else String_replace text re (\<lambda>match. ''<mark>'' @ escapeHtml match @ ''</mark>'')))"

subsection \<open>The expressions of the code, read as shapes\<close>

lemma code_less_256: "code c < 256"
  by (simp add: code_def)

lemma code_char_of: "code (char_of (n::nat)) = n mod 256"
  by (simp add: code_def)

lemma char_eq_code: "a = b \<longleftrightarrow> code a = code b"
  by (simp add: code_def)

lemma code_canon:
  "code (canon True c)
     = (if (97 \<le> code c \<and> code c \<le> 122) \<or> (224 \<le> code c \<and> code c \<le> 254 \<and> code c \<noteq> 247)
        then code c - 32 else code c)"
  using code_less_256[of c] by (simp add: canon_def code_char_of)

lemma code_uncanon:
  "code (uncanon c)
     = (if (65 \<le> code c \<and> code c \<le> 90) \<or> (192 \<le> code c \<and> code c \<le> 222 \<and> code c \<noteq> 215)
        then code c + 32 else code c)"
  using code_less_256[of c] by (simp add: uncanon_def code_char_of)

lemma fold_case_arith:
  fixes x y :: nat
  assumes "x < 256" "y < 256"
  shows "(x = y
          \<or> x = (if (97 \<le> y \<and> y \<le> 122) \<or> (224 \<le> y \<and> y \<le> 254 \<and> y \<noteq> 247) then y - 32 else y)
          \<or> x = (if (65 \<le> y \<and> y \<le> 90) \<or> (192 \<le> y \<and> y \<le> 222 \<and> y \<noteq> 215) then y + 32 else y))
         \<longleftrightarrow> (if (97 \<le> x \<and> x \<le> 122) \<or> (224 \<le> x \<and> x \<le> 254 \<and> x \<noteq> 247) then x - 32 else x)
               = (if (97 \<le> y \<and> y \<le> 122) \<or> (224 \<le> y \<and> y \<le> 254 \<and> y \<noteq> 247) then y - 32 else y)"
proof (cases "(97 \<le> y \<and> y \<le> 122) \<or> (224 \<le> y \<and> y \<le> 254 \<and> y \<noteq> 247)")
  case ly: True
  then have nu: "\<not> ((65 \<le> y \<and> y \<le> 90) \<or> (192 \<le> y \<and> y \<le> 222 \<and> y \<noteq> 215))" by arith
  show ?thesis
  proof (cases "(97 \<le> x \<and> x \<le> 122) \<or> (224 \<le> x \<and> x \<le> 254 \<and> x \<noteq> 247)")
    case True
    with ly nu show ?thesis unfolding if_P[OF ly] if_not_P[OF nu] if_P[OF True] by arith
  next
    case False
    with ly nu show ?thesis unfolding if_P[OF ly] if_not_P[OF nu] if_not_P[OF False] by arith
  qed
next
  case ny: False
  show ?thesis
  proof (cases "(97 \<le> x \<and> x \<le> 122) \<or> (224 \<le> x \<and> x \<le> 254 \<and> x \<noteq> 247)")
    case lx: True
    show ?thesis
    proof (cases "(65 \<le> y \<and> y \<le> 90) \<or> (192 \<le> y \<and> y \<le> 222 \<and> y \<noteq> 215)")
      case True
      with lx ny show ?thesis unfolding if_not_P[OF ny] if_P[OF lx] if_P[OF True] by arith
    next
      case False
      with lx ny show ?thesis unfolding if_not_P[OF ny] if_P[OF lx] if_not_P[OF False] by arith
    qed
  next
    case nx: False
    show ?thesis
    proof (cases "(65 \<le> y \<and> y \<le> 90) \<or> (192 \<le> y \<and> y \<le> 222 \<and> y \<noteq> 215)")
      case True
      with nx ny show ?thesis unfolding if_not_P[OF ny] if_not_P[OF nx] if_P[OF True] by arith
    next
      case False
      with nx ny show ?thesis unfolding if_not_P[OF ny] if_not_P[OF nx] if_not_P[OF False] by arith
    qed
  qed
qed

text \<open>\<open>variants\<close> is what its name says: the characters with the canonical form of \<open>c\<close>.\<close>

lemma variants_canon: "a \<in> set (variants ic c) \<longleftrightarrow> canon ic a = canon ic c"
proof (cases ic)
  case False
  then show ?thesis by (simp add: variants_def canon_def)
next
  case True
  have "a \<in> set (variants True c) \<longleftrightarrow> a = c \<or> a = canon True c \<or> a = uncanon c"
    by (simp add: variants_def)
  also have "\<dots> \<longleftrightarrow> code a = code c \<or> code a = code (canon True c) \<or> code a = code (uncanon c)"
    by (simp only: char_eq_code[symmetric])
  also have "\<dots> \<longleftrightarrow> code (canon True a) = code (canon True c)"
    unfolding code_canon code_uncanon
    by (rule fold_case_arith) (rule code_less_256)+
  also have "\<dots> \<longleftrightarrow> canon True a = canon True c"
    by (simp only: char_eq_code[symmetric])
  finally show ?thesis using True by simp
qed

lemma cset_has_canon:
  "cset_has ic items c \<longleftrightarrow> (\<exists>it \<in> set items. \<exists>a. canon ic a = canon ic c \<and> item_has it a)"
  unfolding cset_has_def Bex_def variants_canon by blast

lemma is_word_canon: "is_word (canon True c) = is_word c"
  using code_less_256[of c]
  by (simp add: canon_def is_word_def is_alpha_def is_digit_def code_char_of) arith

lemma is_word_uncanon: "is_word (uncanon c) = is_word c"
  using code_less_256[of c]
  by (simp add: uncanon_def is_word_def is_alpha_def is_digit_def code_char_of)

lemma word_variants: "cset_has True [ClsW] c = is_word c"
  by (simp add: cset_has_def variants_def is_word_canon is_word_uncanon)

lemma digit_plain: "cset_has False [ClsD] c = is_digit c"
  by (simp add: cset_has_def variants_def)

lemma set_singleton_hd: "set xs = {z} \<Longrightarrow> xs \<noteq> [] \<and> hd xs = z"
  by (cases xs) auto

lemma scan_None: "(\<And>k. i \<le> k \<Longrightarrow> matcher ic t r (k, no_captures) = []) \<Longrightarrow> scan ic t r i = None"
proof (induction ic t r i rule: scan.induct)
  case (1 ic t r i)
  show ?case
  proof (cases "length t < i")
    case True
    then show ?thesis by (simp add: scan.simps)
  next
    case False
    from "1.prems"[of i] have m: "matcher ic t r (i, no_captures) = []" by simp
    have "scan ic t r (Suc i) = None"
      using "1.IH"[OF False m] "1.prems" by simp
    with False m show ?thesis by (simp add: scan.simps[of ic t r i])
  qed
qed

text \<open>A pattern that starts with \<^verbatim>\<open>^\<close> is only tried at index 0.\<close>

lemma scan_Bol:
  "scan ic t (Seq Bol r) 0
     = (case matcher ic t r (0, no_captures) of [] \<Rightarrow> None | x # xs \<Rightarrow> Some (0, x))"
proof (cases "matcher ic t r (0, no_captures)")
  case Nil
  have "scan ic t (Seq Bol r) 0 = None"
  proof (rule scan_None)
    fix k :: nat
    show "matcher ic t (Seq Bol r) (k, no_captures) = []" using Nil by simp
  qed
  with Nil show ?thesis by simp
next
  case (Cons x xs)
  then show ?thesis by (simp add: scan.simps[of ic t "Seq Bol r" 0])
qed

text \<open>
  A quantified class: the matches end after \<open>mn\<close> or more, and at most \<open>mx\<close>, characters of
  the class in a row.
\<close>

lemma Rep_CSet_set:
  assumes "e \<le> length t" and "case mx of None \<Rightarrow> True | Some k \<Rightarrow> mn \<le> k"
  shows "set (matcher ic t (Rep mn mx g (CSet neg its)) (e, cap))
           = {(j, cap) | j. e + mn \<le> j \<and> (case mx of None \<Rightarrow> True | Some k \<Rightarrow> j \<le> e + k)
                \<and> j \<le> length t \<and> (\<forall>i. e \<le> i \<and> i < j \<longrightarrow> (cset_has ic its (t ! i) \<noteq> neg))}"
  using assms
proof (induction "length t - e" arbitrary: e mn mx rule: less_induct)
  case less
  let ?ok = "\<lambda>i. cset_has ic its (t ! i) \<noteq> neg"
  let ?R = "\<lambda>e mn mx. {(j, cap) | j. e + mn \<le> j \<and> (case mx of None \<Rightarrow> True | Some k \<Rightarrow> j \<le> e + k)
                \<and> j \<le> length t \<and> (\<forall>i. e \<le> i \<and> i < j \<longrightarrow> ?ok i)}"
  have clr: "filter (\<lambda>(k, s). k \<notin> groups (CSet neg its)) cap = cap" by simp
  show ?case
  proof (cases "mx = Some 0")
    case True
    with less.prems have "mn = 0" by simp
    with True less.prems(1) show ?thesis by (auto simp: matcher.simps(13))
  next
    case False
    show ?thesis
    proof (cases "e < length t \<and> ?ok e")
      case step: True
      from step have el: "e < length t" and oke: "?ok e" by blast+
      have "length t - Suc e < length t - e" using el by arith
      moreover have "Suc e \<le> length t" using el by arith
      moreover have "case pred_opt mx of None \<Rightarrow> True | Some k \<Rightarrow> mn - 1 \<le> k"
        using less.prems(2) by (cases mx) (auto simp: pred_opt_def)
      ultimately have IH: "set (matcher ic t (Rep (mn - 1) (pred_opt mx) g (CSet neg its)) (Suc e, cap))
                 = ?R (Suc e) (mn - 1) (pred_opt mx)"
        by (rule less.hyps)
      have m: "set (matcher ic t (Rep mn mx g (CSet neg its)) (e, cap))
                 = ?R (Suc e) (mn - 1) (pred_opt mx) \<union> (if mn = 0 then {(e, cap)} else {})"
        using False el oke IH by (auto simp: matcher.simps(13)[of ic t mn mx g] clr Let_def)
      have "?R (Suc e) (mn - 1) (pred_opt mx) \<union> (if mn = 0 then {(e, cap)} else {}) = ?R e mn mx"
      proof (intro set_eqI iffI)
        fix y assume "y \<in> ?R (Suc e) (mn - 1) (pred_opt mx) \<union> (if mn = 0 then {(e, cap)} else {})"
        then show "y \<in> ?R e mn mx"
        proof
          assume "y \<in> ?R (Suc e) (mn - 1) (pred_opt mx)"
          then obtain j where j: "y = (j, cap)" "Suc e + (mn - 1) \<le> j"
            "case pred_opt mx of None \<Rightarrow> True | Some k \<Rightarrow> j \<le> Suc e + k"
            "j \<le> length t" "\<forall>i. Suc e \<le> i \<and> i < j \<longrightarrow> ?ok i" by blast
          have "\<forall>i. e \<le> i \<and> i < j \<longrightarrow> ?ok i"
          proof (intro allI impI)
            fix i assume "e \<le> i \<and> i < j"
            then show "?ok i" using j(5) oke by (cases "i = e") auto
          qed
          moreover have "case mx of None \<Rightarrow> True | Some k \<Rightarrow> j \<le> e + k"
            using j(3) False by (cases mx) (auto simp: pred_opt_def)
          ultimately show ?thesis using j by auto
        next
          assume "y \<in> (if mn = 0 then {(e, cap)} else {})"
          then have "mn = 0" "y = (e, cap)" by (auto split: if_splits)
          then show ?thesis using less.prems(1) by (auto split: option.splits)
        qed
      next
        fix y assume "y \<in> ?R e mn mx"
        then obtain j where j: "y = (j, cap)" "e + mn \<le> j"
            "case mx of None \<Rightarrow> True | Some k \<Rightarrow> j \<le> e + k"
            "j \<le> length t" "\<forall>i. e \<le> i \<and> i < j \<longrightarrow> ?ok i" by blast
        show "y \<in> ?R (Suc e) (mn - 1) (pred_opt mx) \<union> (if mn = 0 then {(e, cap)} else {})"
        proof (cases "j = e")
          case True
          with j show ?thesis by auto
        next
          case nj: False
          with j(2) have "Suc e \<le> j" by simp
          moreover have "case pred_opt mx of None \<Rightarrow> True | Some k \<Rightarrow> j \<le> Suc e + k"
            using j(3) False by (cases mx) (auto simp: pred_opt_def)
          ultimately have "y \<in> ?R (Suc e) (mn - 1) (pred_opt mx)"
            using j by auto
          then show ?thesis by simp
        qed
      qed
      with m show ?thesis by simp
    next
      case stop: False
      have b: "matcher ic t (CSet neg its) (e, cap) = []" using stop by auto
      have m: "set (matcher ic t (Rep mn mx g (CSet neg its)) (e, cap))
                 = (if mn = 0 then {(e, cap)} else {})"
        using False stop by (auto simp: matcher.simps(13)[of ic t mn mx g] clr Let_def)
      have "?R e mn mx = (if mn = 0 then {(e, cap)} else {})"
      proof (intro set_eqI iffI)
        fix y assume "y \<in> ?R e mn mx"
        then obtain j where j: "y = (j, cap)" "e + mn \<le> j"
            "case mx of None \<Rightarrow> True | Some k \<Rightarrow> j \<le> e + k"
            "j \<le> length t" "\<forall>i. e \<le> i \<and> i < j \<longrightarrow> ?ok i" by blast
        have "j = e"
        proof (rule ccontr)
          assume "j \<noteq> e"
          with j(2) have "e < j" by simp
          with j(4,5) have "e < length t \<and> ?ok e" by auto
          with stop show False by simp
        qed
        with j show "y \<in> (if mn = 0 then {(e, cap)} else {})" by auto
      next
        fix y assume "y \<in> (if mn = 0 then {(e, cap)} else {})"
        then have "mn = 0" "y = (e, cap)" by (auto split: if_splits)
        then show "y \<in> ?R e mn mx" using less.prems(1) by (auto split: option.splits)
      qed
      with m show ?thesis by simp
    qed
  qed
qed


lemma seqs_Cons: "rs \<noteq> [] \<Longrightarrow> seqs (r # rs) = Seq r (seqs rs)"
  by (cases rs) simp_all

lemma concat_map_if [simp]:
  "concat (map f (if c then [z] else [])) = (if c then f z else [])"
  by simp

lemma substring_Suc:
  "e < length t \<Longrightarrow> substring t e (Suc (e + n)) = t ! e # substring t (Suc e) (Suc (e + n))"
  by (simp add: substring_def Cons_nth_drop_Suc[symmetric])

text \<open>A run of literal characters at the head of a sequence.\<close>

lemma matcher_literals:
  "rest \<noteq> [] \<Longrightarrow> e \<le> length t \<Longrightarrow>
     matcher ic t (seqs (map Chr w @ rest)) (e, cap)
       = (if e + length w \<le> length t
             \<and> map (canon ic) (substring t e (e + length w)) = map (canon ic) w
          then matcher ic t (seqs rest) (e + length w, cap) else [])"
proof (induction w arbitrary: e)
  case Nil
  then show ?case by (simp add: substring_def)
next
  case (Cons c w)
  have ne: "map Chr w @ rest \<noteq> []" using Cons.prems by simp
  show ?case
  proof (cases "e < length t")
    case True
    then have "Suc e \<le> length t" by simp
    from Cons.IH[OF Cons.prems(1) this] ne True show ?thesis
      by (auto simp: seqs_Cons substring_Suc)
  next
    case False
    with ne show ?thesis by (simp add: seqs_Cons)
  qed
qed

lemma list_all_drop: "list_all P (drop n xs) \<longleftrightarrow> (\<forall>i. n \<le> i \<and> i < length xs \<longrightarrow> P (xs ! i))"
proof
  assume a: "list_all P (drop n xs)"
  show "\<forall>i. n \<le> i \<and> i < length xs \<longrightarrow> P (xs ! i)"
  proof (intro allI impI)
    fix i assume i: "n \<le> i \<and> i < length xs"
    then have "i - n < length (drop n xs)" by auto
    with a have "P (drop n xs ! (i - n))" by (simp add: list_all_length)
    with i show "P (xs ! i)" by simp
  qed
next
  assume a: "\<forall>i. n \<le> i \<and> i < length xs \<longrightarrow> P (xs ! i)"
  show "list_all P (drop n xs)"
    unfolding list_all_length
  proof (intro allI impI)
    fix k assume "k < length (drop n xs)"
    then have "n \<le> n + k \<and> n + k < length xs" by auto
    with a have "P (xs ! (n + k))" by blast
    then show "P (drop n xs ! k)" using \<open>k < length (drop n xs)\<close> by simp
  qed
qed

lemma anchored_literals_scan:
  assumes "rest \<noteq> []"
  shows "scan ic q (Seq Bol (seqs (map Chr w @ rest))) 0
           = (if length w \<le> length q \<and> map (canon ic) (take (length w) q) = map (canon ic) w
              then (case matcher ic q (seqs rest) (length w, []) of
                      [] \<Rightarrow> None | x # xs \<Rightarrow> Some (0, x))
              else None)"
proof -
  let ?C = "length w \<le> length q \<and> map (canon ic) (take (length w) q) = map (canon ic) w"
  have M: "matcher ic q (seqs (map Chr w @ rest)) (0, no_captures)
          = (if ?C then matcher ic q (seqs rest) (length w, []) else [])"
    using matcher_literals[OF assms, of 0 q ic w "[]"]
    by (simp add: no_captures_def substring_def)
  show ?thesis
  proof (cases ?C)
    case True
    show ?thesis
      unfolding scan_Bol M if_P[OF True] ..
  next
    case False
    show ?thesis
      unfolding scan_Bol M if_not_P[OF False] by simp
  qed
qed

lemma word_run_to_end:
  assumes "5 \<le> length q"
  shows "set (matcher True q (Seq (Grp 1 (Rep 1 None True (CSet False [ClsW]))) Eol) (5, []))
           = (if 5 < length q \<and> list_all is_word (drop 5 q)
              then {(length q, [(1, drop 5 q)])} else {})"
proof -
  have r: "set (matcher True q (Rep 1 None True (CSet False [ClsW])) (5, []))
             = {(j, []) | j. 6 \<le> j \<and> j \<le> length q \<and> (\<forall>i. 5 \<le> i \<and> i < j \<longrightarrow> is_word (q ! i))}"
    using Rep_CSet_set[OF assms, where mx = None and mn = 1 and ic = True and g = True
            and neg = False and its = "[ClsW]" and cap = "[]"]
    by (simp add: word_variants)
  have "set (matcher True q (Seq (Grp 1 (Rep 1 None True (CSet False [ClsW]))) Eol) (5, []))
          = {(j, [(1, substring q 5 j)]) | j. 6 \<le> j \<and> j \<le> length q
               \<and> (\<forall>i. 5 \<le> i \<and> i < j \<longrightarrow> is_word (q ! i)) \<and> j = length q}"
    by (auto simp: r simp del: One_nat_def)
  also have "\<dots> = (if 5 < length q \<and> list_all is_word (drop 5 q)
              then {(length q, [(1, drop 5 q)])} else {})"
    by (auto simp: list_all_drop substring_def)
  finally show ?thesis .
qed

lemma pat_tag_query:
  "pat tag_query = Seq Bol (seqs (map Chr ''@tag:''
       @ [Grp 1 (Rep 1 None True (CSet False [ClsW])), Eol]))"
  by (simp add: tag_query_def)

lemma canon_tag: "map (canon True) ''@tag:'' = ''@TAG:''"
  by code_simp

lemma scan_tag_query:
  "scan True q (pat tag_query) 0
     = (if 5 \<le> length q \<and> map (canon True) (take 5 q) = ''@TAG:''
        then (case matcher True q (Seq (Grp 1 (Rep 1 None True (CSet False [ClsW]))) Eol) (5, []) of
                [] \<Rightarrow> None | x # xs \<Rightarrow> Some (0, x))
        else None)"
proof -
  have "scan True q (pat tag_query) 0
     = (if length ''@tag:'' \<le> length q
           \<and> map (canon True) (take (length ''@tag:'') q) = map (canon True) ''@tag:''
        then (case matcher True q (seqs [Grp 1 (Rep 1 None True (CSet False [ClsW])), Eol])
                     (length ''@tag:'', []) of
                [] \<Rightarrow> None | x # xs \<Rightarrow> Some (0, x))
        else None)"
    unfolding pat_tag_query by (rule anchored_literals_scan) simp
  also have "length ''@tag:'' = 5" by simp
  also have "seqs [Grp 1 (Rep 1 None True (CSet False [ClsW])), Eol]
               = Seq (Grp 1 (Rep 1 None True (CSet False [ClsW]))) Eol" by simp
  finally show ?thesis unfolding canon_tag .
qed

lemma canon_tag_letters:
  "canon True c = CHR ''@'' \<longleftrightarrow> c = CHR ''@''"
  "canon True c = CHR ''T'' \<longleftrightarrow> c \<in> set ''tT''"
  "canon True c = CHR ''A'' \<longleftrightarrow> c \<in> set ''aA''"
  "canon True c = CHR ''G'' \<longleftrightarrow> c \<in> set ''gG''"
  "canon True c = CHR '':'' \<longleftrightarrow> c = CHR '':''"
  using code_less_256[of c]
  by (simp_all add: char_eq_code[of "canon True c"] char_eq_code[of c] code_canon,
      simp_all add: code_def, arith+)

lemma take_5: "5 \<le> length q \<Longrightarrow> take 5 q = [q ! 0, q ! 1, q ! 2, q ! 3, q ! 4]"
proof -
  assume "5 \<le> length q"
  then obtain a b c d e r where "q = a # b # c # d # e # r"
    by (cases q; cases "tl q"; cases "tl (tl q)"; cases "tl (tl (tl q))";
        cases "tl (tl (tl (tl q)))") auto
  then show ?thesis by simp
qed

lemma tag_prefix_iff:
  "5 \<le> length q \<Longrightarrow>
     map (canon True) (take 5 q) = ''@TAG:''
       \<longleftrightarrow> q ! 0 = CHR ''@'' \<and> q ! 1 \<in> set ''tT'' \<and> q ! 2 \<in> set ''aA'' \<and> q ! 3 \<in> set ''gG''
            \<and> q ! 4 = CHR '':''"
  by (simp only: take_5 list.map list.inject canon_tag_letters) simp

lemma String_match_tag_query:
  "String_match q tag_query
     = (if tag_command_shape q
        then Some \<lparr>m_index = 0, m_text = q, m_group = [(1, drop 5 q)]\<rparr> else None)"
proof -
  let ?M = "matcher True q (Seq (Grp 1 (Rep 1 None True (CSet False [ClsW]))) Eol) (5, [])"
  let ?C = "5 \<le> length q \<and> map (canon True) (take 5 q) = ''@TAG:''"
  have g: "\<not> global tag_query" "ignoreCase tag_query"
    by (simp_all add: tag_query_def global_def ignoreCase_def)
  have e: "String_match q tag_query
             = (case scan True q (pat tag_query) 0 of
                  None \<Rightarrow> None
                | Some (i, (e, cap)) \<Rightarrow> Some \<lparr>m_index = i, m_text = substring q i e, m_group = cap\<rparr>)"
    using g by (simp add: String_match_def RegExp_exec_def split: option.splits)
  show ?thesis
  proof (cases "tag_command_shape q")
    case True
    then have l: "5 \<le> length q" and w: "5 < length q \<and> list_all is_word (drop 5 q)"
      by (simp_all add: tag_command_shape_def)
    from True tag_prefix_iff[OF l] l have c: ?C
      by (simp add: tag_command_shape_def)
    have "set ?M = {(length q, [(1, drop 5 q)])}"
      using word_run_to_end[OF l] unfolding if_P[OF w] .
    from set_singleton_hd[OF this] obtain xs where "?M = (length q, [(1, drop 5 q)]) # xs"
      by (cases ?M) auto
    then have "scan True q (pat tag_query) 0 = Some (0, (length q, [(1, drop 5 q)]))"
      unfolding scan_tag_query if_P[OF c] by (simp only: list.case)
    with True show ?thesis unfolding e by (simp add: substring_def)
  next
    case False
    have "scan True q (pat tag_query) 0 = None"
    proof (cases ?C)
      case True
      then have l: "5 \<le> length q" ..
      from True False tag_prefix_iff[OF l]
      have nw: "\<not> (5 < length q \<and> list_all is_word (drop 5 q))"
        by (auto simp: tag_command_shape_def)
      have "set ?M = {}" using word_run_to_end[OF l] unfolding if_not_P[OF nw] .
      then have "?M = []" by (simp only: set_empty)
      then show ?thesis unfolding scan_tag_query if_P[OF True] by (simp only: list.case)
    next
      case False
      show ?thesis unfolding scan_tag_query if_not_P[OF False] ..
    qed
    with False show ?thesis unfolding e by simp
  qed
qed

text \<open>A class repeated exactly \<open>n\<close> times.\<close>

lemma Rep_exact:
  "matcher ic t (Rep n (Some n) g (CSet neg its)) (e, cap)
     = (if (n = 0 \<or> e + n \<le> length t)
           \<and> list_all (\<lambda>c. cset_has ic its c \<noteq> neg) (substring t e (e + n))
        then [(e + n, cap)] else [])"
proof (induction n arbitrary: e)
  case 0
  show ?case by (simp add: matcher.simps(13) substring_def)
next
  case (Suc n)
  have clr: "filter (\<lambda>(k, s). k \<notin> groups (CSet neg its)) cap = cap" by simp
  show ?case
  proof (cases "e < length t")
    case True
    with Suc.IH[of "Suc e"] show ?thesis
      by (auto simp: matcher.simps(13)[of ic t "Suc n"] clr pred_opt_def Let_def substring_Suc)
  next
    case False
    then show ?thesis
      by (auto simp: matcher.simps(13)[of ic t "Suc n"] clr pred_opt_def Let_def)
  qed
qed

lemma Rep_digits [simp]:
  "matcher False t (Rep n (Some n) g digit) (e, cap)
     = (if (n = 0 \<or> e + n \<le> length t) \<and> list_all is_digit (substring t e (e + n))
        then [(e + n, cap)] else [])"
  by (simp add: digit_def Rep_exact digit_plain)

lemma pat_date_query:
  "pat date_query = Seq Bol (seqs (map Chr ''@date:''
       @ [Grp 1 (seqs [Rep 4 (Some 4) True digit, Chr CHR ''-'', Rep 2 (Some 2) True digit,
                       Chr CHR ''-'', Rep 2 (Some 2) True digit]), Eol]))"
  by (simp add: date_query_def)

lemma date_body:
  "matcher False q
     (seqs [Grp 1 (seqs [Rep 4 (Some 4) True digit, Chr CHR ''-'', Rep 2 (Some 2) True digit,
                       Chr CHR ''-'', Rep 2 (Some 2) True digit]), Eol]) (6, [])
   = (if length q = 16 \<and> list_all is_digit (substring q 6 10) \<and> q ! 10 = CHR ''-''
      \<and> list_all is_digit (substring q 11 13) \<and> q ! 13 = CHR ''-''
      \<and> list_all is_digit (substring q 14 16)
      then [(16, [(1, substring q 6 16)])] else [])"
  by (auto simp: canon_def)

lemma canon_False [simp]: "canon False c = c"
  by (simp add: canon_def)

lemma scan_date_query:
  "scan False q (pat date_query) 0
     = (if 6 \<le> length q \<and> take 6 q = ''@date:''
        then (case matcher False q
                (seqs [Grp 1 (seqs [Rep 4 (Some 4) True digit, Chr CHR ''-'', Rep 2 (Some 2) True digit,
                       Chr CHR ''-'', Rep 2 (Some 2) True digit]), Eol]) (6, []) of
                [] \<Rightarrow> None | x # xs \<Rightarrow> Some (0, x))
        else None)"
proof -
  have "scan False q (pat date_query) 0
     = (if length ''@date:'' \<le> length q
           \<and> map (canon False) (take (length ''@date:'') q) = map (canon False) ''@date:''
        then (case matcher False q
                (seqs [Grp 1 (seqs [Rep 4 (Some 4) True digit, Chr CHR ''-'', Rep 2 (Some 2) True digit,
                       Chr CHR ''-'', Rep 2 (Some 2) True digit]), Eol]) (length ''@date:'', []) of
                [] \<Rightarrow> None | x # xs \<Rightarrow> Some (0, x))
        else None)"
    unfolding pat_date_query by (rule anchored_literals_scan) simp
  also have "length ''@date:'' = 6" by simp
  also have "map (canon False) = (\<lambda>xs. xs)" by (rule ext) (simp add: map_idI)
  finally show ?thesis .
qed

lemma String_match_date_query:
  "String_match q date_query
     = (if date_command_shape q
        then Some \<lparr>m_index = 0, m_text = q, m_group = [(1, drop 6 q)]\<rparr> else None)"
proof -
  have g: "\<not> global date_query" "\<not> ignoreCase date_query"
    by (simp_all add: date_query_def global_def ignoreCase_def)
  have e: "String_match q date_query
             = (case scan False q (pat date_query) 0 of
                  None \<Rightarrow> None
                | Some (i, (e, cap)) \<Rightarrow> Some \<lparr>m_index = i, m_text = substring q i e, m_group = cap\<rparr>)"
    using g by (simp add: String_match_def RegExp_exec_def split: option.splits)
  show ?thesis
    unfolding e scan_date_query date_body
    by (auto simp: date_command_shape_def substring_def)
qed

lemma group_val_single [simp]:
  "group_val \<lparr>m_index = i, m_text = t, m_group = [(n, w)]\<rparr> n = JStr w"
  by (simp add: group_val_def capture_def)

lemma test_anchored:
  "\<not> global re \<Longrightarrow> pat re = Seq Bol r \<Longrightarrow>
     test re s = (matcher (ignoreCase re) s r (0, []) \<noteq> [])"
  by (simp add: test_def RegExp_test_def RegExp_exec_def scan_Bol no_captures_def
        split: list.splits option.splits)

lemma code_literals:
  "code CHR ''0'' = 48" "code CHR ''1'' = 49" "code CHR ''2'' = 50" "code CHR ''9'' = 57"
  by (simp_all add: code_def)

lemma month_part:
  "matcher False s
     (Grp 1 (Alt (Seq (Chr CHR ''0'') (CSet False [Span CHR ''1'' CHR ''9'']))
                 (Seq (Chr CHR ''1'') (CSet False [Span CHR ''0'' CHR ''2''])))) (e, cap)
   = (if e + 2 \<le> length s \<and> month_ok (s ! e) (s ! Suc e)
      then [(e + 2, (1, substring s e (e + 2)) # cap)] else [])"
  by (auto simp: month_ok_def cset_has_def variants_def code_literals)

lemma day_part:
  "matcher False s
     (Grp 2 (alts [Seq (Chr CHR ''0'') (CSet False [Span CHR ''1'' CHR ''9'']),
                   Seq (CSet False [One CHR ''1'', One CHR ''2'']) digit,
                   Seq (Chr CHR ''3'') (CSet False [One CHR ''0'', One CHR ''1''])])) (e, cap)
   = (if e + 2 \<le> length s \<and> day_ok (s ! e) (s ! Suc e)
      then [(e + 2, (2, substring s e (e + 2)) # cap)] else [])"
  by (auto simp: day_ok_def cset_has_def variants_def code_literals digit_def)

lemma patterns_date_shape: "test patterns_date s = date_shape s"
proof -
  define M where "M = Grp 1 (Alt (Seq (Chr CHR ''0'') (CSet False [Span CHR ''1'' CHR ''9'']))
                             (Seq (Chr CHR ''1'') (CSet False [Span CHR ''0'' CHR ''2''])))"
  define D where "D = Grp 2 (alts [Seq (Chr CHR ''0'') (CSet False [Span CHR ''1'' CHR ''9'']),
                               Seq (CSet False [One CHR ''1'', One CHR ''2'']) digit,
                               Seq (Chr CHR ''3'') (CSet False [One CHR ''0'', One CHR ''1''])])"
  have p: "pat patterns_date
             = Seq Bol (seqs [Rep 4 (Some 4) True digit, Chr CHR ''-'', M, Chr CHR ''-'', D, Eol])"
    by (simp add: patterns_date_def M_def D_def)
  have g: "\<not> global patterns_date" "\<not> ignoreCase patterns_date"
    by (simp_all add: patterns_date_def global_def ignoreCase_def)
  have m: "\<And>e cap. matcher False s M (e, cap)
             = (if e + 2 \<le> length s \<and> month_ok (s ! e) (s ! Suc e)
                then [(e + 2, (1, substring s e (e + 2)) # cap)] else [])"
    unfolding M_def by (rule month_part)
  have d: "\<And>e cap. matcher False s D (e, cap)
             = (if e + 2 \<le> length s \<and> day_ok (s ! e) (s ! Suc e)
                then [(e + 2, (2, substring s e (e + 2)) # cap)] else [])"
    unfolding D_def by (rule day_part)
  have "test patterns_date s
          = (matcher False s
               (seqs [Rep 4 (Some 4) True digit, Chr CHR ''-'', M, Chr CHR ''-'', D, Eol]) (0, [])
             \<noteq> [])"
    using test_anchored[OF g(1) p, of s] g(2) by simp
  also have "\<dots> = date_shape s"
    by (auto simp: m d date_shape_def substring_def numeral_eq_Suc)
  finally show ?thesis .
qed

lemma trim_Nil [simp]: "trim [] = []"
  by (simp add: trim_def)

lemma trim_id: "s \<noteq> [] \<Longrightarrow> \<not> is_ws (hd s) \<Longrightarrow> \<not> is_ws (last s) \<Longrightarrow> trim s = s"
proof -
  assume s: "s \<noteq> []" and h: "\<not> is_ws (hd s)" and l: "\<not> is_ws (last s)"
  from s h have a: "dropWhile is_ws s = s" by (cases s) simp_all
  from s l have "dropWhile is_ws (rev s) = rev s" by (cases "rev s") (simp_all add: hd_rev)
  with a show "trim s = s" by (simp add: trim_def)
qed

lemma trim_ends: "trim s \<noteq> [] \<Longrightarrow> \<not> is_ws (hd (trim s)) \<and> \<not> is_ws (last (trim s))"
proof -
  assume n: "trim s \<noteq> []"
  let ?u = "dropWhile is_ws s"
  let ?v = "dropWhile is_ws (rev ?u)"
  from n have v: "?v \<noteq> []" by (simp add: trim_def)
  then have lastq: "\<not> is_ws (hd ?v)" by (rule hd_dropWhile)
  have u: "?u \<noteq> []"
  proof
    assume "?u = []"
    then have "?v = []" by (simp only: rev.simps dropWhile.simps)
    with v show False by contradiction
  qed
  then have hu: "\<not> is_ws (hd ?u)" by (rule hd_dropWhile)
  have "last (trim s) = hd ?v" using v by (simp add: trim_def last_rev)
  moreover have "hd (trim s) = hd ?u"
  proof -
    from u obtain a w where uw: "?u = a # w" by (cases ?u) auto
    with hu have na: "\<not> is_ws a" by simp
    have "?v = dropWhile is_ws (rev w) @ [a]"
      using uw na by (simp add: dropWhile_append3)
    then have "trim s = a # rev (dropWhile is_ws (rev w))" by (simp add: trim_def)
    with uw show ?thesis by simp
  qed
  ultimately show ?thesis using lastq hu by simp
qed

lemma trim_idem: "trim (trim s) = trim s"
proof (cases "trim s = []")
  case True
  then show ?thesis by simp
next
  case False
  from trim_ends[OF False] show ?thesis by (simp add: trim_id[OF False])
qed

lemma is_digit_not_ws: "is_digit c \<Longrightarrow> \<not> is_ws c"
  by (auto simp: is_digit_def is_ws_def)

lemma day_ok_digit: "day_ok a b \<Longrightarrow> is_digit b"
  by (auto simp: day_ok_def is_digit_def code_literals)

lemma date_shape_trimmed: "date_shape s \<Longrightarrow> trim s = s"
proof -
  assume d: "date_shape s"
  then have len: "length s = 10" by (simp add: date_shape_def)
  then have ne: "s \<noteq> []" by auto
  from d len have "is_digit (s ! 0)"
    by (auto simp: date_shape_def list_all_length)
  with ne have h: "\<not> is_ws (hd s)" by (simp add: hd_conv_nth is_digit_not_ws)
  from d have "is_digit (s ! 9)" by (auto simp: date_shape_def dest: day_ok_digit)
  with ne len have l: "\<not> is_ws (last s)" by (simp add: last_conv_nth is_digit_not_ws)
  from ne h l show ?thesis by (rule trim_id)
qed

subsection \<open>Facts about the search functions\<close>

lemma some_test_not_global:
  "\<not> global re \<Longrightarrow> some_test re vs = (\<exists>v \<in> set vs. test re v, re)"
proof (induction vs)
  case Nil
  then show ?case by simp
next
  case (Cons v vs)
  from RegExp_test_not_global[OF Cons.prems, of v]
  have "RegExp_test re v = (test re v, re)"
    by (cases "RegExp_test re v") (simp add: test_def)
  with Cons show ?case by (cases "test re v") simp_all
qed

text \<open>
  With an expression that is not global, \<open>filter_tasks\<close> is a filter: it keeps the tasks
  with a matching field, in their order.
\<close>

lemma filter_tasks_not_global:
  "\<not> global re \<Longrightarrow>
     filter_tasks flds re ts = (filter (\<lambda>t. \<exists>f \<in> set flds. test re (f t)) ts, re)"
  by (induction ts) (simp_all add: some_test_not_global)

lemma searchTasks_not_global:
  "\<not> global re \<Longrightarrow>
     searchTasks h tasks (Some re) flds
       = (length h, h @ [filter (\<lambda>t. \<exists>f \<in> set flds. test re (f t)) (h ! tasks)], Some re)"
  by (simp add: searchTasks_def filter_tasks_not_global alloc_def)

lemma filter_tasks_subseq: "subseq (fst (filter_tasks flds re ts)) ts"
proof (induction ts arbitrary: re)
  case Nil
  then show ?case by simp
next
  case (Cons t ts)
  obtain keep re' where k: "some_test re (map (\<lambda>field. field t) flds) = (keep, re')"
    by (cases "some_test re (map (\<lambda>field. field t) flds)")
  obtain kept re'' where f: "filter_tasks flds re' ts = (kept, re'')"
    by (cases "filter_tasks flds re' ts")
  from Cons.IH[of re'] f have "subseq kept ts" by simp
  with k f show ?case by (cases keep) auto
qed

lemma parseQuery_command:
  "fst (parseQuery query) = None \<or> fst (parseQuery query) = Some ''tag''
     \<or> fst (parseQuery query) = Some ''date''"
  by (simp add: parseQuery_def split: option.splits)

lemma parseQuery_free:
  "query \<noteq> [] \<Longrightarrow> fst (parseQuery query) = None \<Longrightarrow> parseQuery query = (None, JStr query)"
  by (simp add: parseQuery_def split: option.splits)


lemma searchTasks_frame:
  assumes "tasks < length h"
  shows "case searchTasks h tasks regex flds of
           (r, h', regex') \<Rightarrow>
             h' ! tasks = h ! tasks \<and> take (length h) h' = h \<and> subseq (h' ! r) (h ! tasks)
             \<and> (if regex = None then r = tasks \<and> h' = h
                 else r = length h \<and> length h' = Suc (length h))"
proof (cases regex)
  case None
  then show ?thesis by (simp add: searchTasks_def)
next
  case (Some re)
  obtain kept re' where f: "filter_tasks flds re (h ! tasks) = (kept, re')"
    by (cases "filter_tasks flds re (h ! tasks)")
  with filter_tasks_subseq[of flds re "h ! tasks"] have "subseq kept (h ! tasks)" by simp
  with Some f assms show ?thesis
    by (simp add: searchTasks_def alloc_def nth_append)
qed

lemma applyCommand_frame:
  assumes "tasks < length h"
  shows "case applyCommand h tasks command pattern of
           (r, h') \<Rightarrow>
             h' ! tasks = h ! tasks \<and> take (length h) h' = h \<and> subseq (h' ! r) (h ! tasks)
             \<and> (if command = ''tag'' \<or> command = ''date''
                 then r = length h \<and> length h' = Suc (length h)
                 else r = tasks \<and> h' = h)"
  using assms by (simp add: applyCommand_def alloc_def nth_append)

lemma performSearch_frame:
  assumes "tasks < length h"
  shows "case performSearch RegExp h tasks query caseSensitive of
           (res, h') \<Rightarrow>
             h' ! tasks = h ! tasks \<and> take (length h) h' = h
             \<and> subseq (h' ! r_tasks res) (h ! tasks)
             \<and> (if query = [] then r_tasks res = tasks \<and> h' = h
                 else r_tasks res = length h \<and> length h' = Suc (length h))"
proof (cases "query = []")
  case True
  then show ?thesis by (simp add: performSearch_def)
next
  case False
  obtain command pattern where p: "parseQuery query = (command, pattern)"
    by (cases "parseQuery query")
  show ?thesis
  proof (cases command)
    case (Some c)
    with parseQuery_command[of query] p have c: "c = ''tag'' \<or> c = ''date''" by auto
    obtain r h' where ac: "applyCommand h tasks c pattern = (r, h')"
      by (cases "applyCommand h tasks c pattern")
    from applyCommand_frame[OF assms, of c pattern] ac c False p Some show ?thesis
      by (auto simp: performSearch_def)
  next
    case None
    obtain regex err where cr:
      "compileRegex RegExp pattern (if caseSensitive then ''g'' else ''gi'') = (regex, err)"
      by (cases "compileRegex RegExp pattern (if caseSensitive then ''g'' else ''gi'')")
    show ?thesis
    proof (cases regex)
      case n: None
      with None p cr False assms show ?thesis
        by (simp add: performSearch_def alloc_def nth_append)
    next
      case (Some re)
      obtain r h' regex' where st: "searchTasks h tasks (Some re) default_fields = (r, h', regex')"
        by (cases "searchTasks h tasks (Some re) default_fields") auto
      from searchTasks_frame[OF assms, of "Some re" default_fields] st None p cr False Some
      show ?thesis
        by (auto simp: performSearch_def)
    qed
  qed
qed

text \<open>
  The part of C2 that the code keeps: an accepted title, trimmed, is not empty and has no
  white space at either end.
\<close>

lemma validateTitle_valid_ends:
  assumes "valid (validateTitle (JStr s))"
  shows "trim s \<noteq> [] \<and> \<not> is_ws (hd (trim s)) \<and> \<not> is_ws (last (trim s))"
proof -
  from assms have "trim s \<noteq> []"
    by (auto simp: validateTitle_def Let_def split: if_splits)
  with trim_ends[of s] show ?thesis by simp
qed

subsection \<open>Claims\<close>

text \<open>
  C1: for a query that is a free pattern and compiles, \<open>performSearch\<close> returns exactly the
  tasks whose title, tag or dueDate matches the pattern, in their order.  The code does not:
  it compiles the pattern with the flag \<^verbatim>\<open>g\<close>, so every \<^verbatim>\<open>test\<close> starts where the match
  before it ended.  For the query \<^verbatim>\<open>exam\<close>, the match in the title \<^verbatim>\<open>Final exam\<close> of the first
  task leaves \<^verbatim>\<open>lastIndex\<close> at 10, beyond the end of the title \<^verbatim>\<open>exam\<close> of the second task: that
  task is left out, although the compiled pattern matches its title.
\<close>

theorem performSearch_drops_matching_task:
  "(case performSearch RegExp_new [[exam_task_1, exam_task_2]] 0 ''exam'' False of
      (r, h') \<Rightarrow> r_error r = [] \<and> h' ! r_tasks r = [exam_task_1])
   \<and> parseQuery ''exam'' = (None, JStr ''exam'')
   \<and> map_option (\<lambda>re. test re (title exam_task_2))
         (fst (compileRegex RegExp_new (JStr ''exam'') ''gi'')) = Some True"
  by code_simp

theorem performSearch_drops_matching_task_witness:
  "exam_task_2 \<notin> set (snd (performSearch RegExp_new [[exam_task_1, exam_task_2]] 0 ''exam'' False)
                          ! r_tasks (fst (performSearch RegExp_new [[exam_task_1, exam_task_2]] 0
                                            ''exam'' False)))"
  using performSearch_drops_matching_task
  by (simp add: exam_task_1_def exam_task_2_def split: prod.splits)

text \<open>
  C2: a title that \<open>validateTitle\<close> accepts has, once trimmed, no white space at either end,
  no two white-space characters in a row, and no word next to a copy of itself.  The code
  does not refuse two spaces in a row: \<^verbatim>\<open>patterns.title\<close> only asks that the first and the
  last character are not white space.  The title below is the one that the comment on the
  pattern lists as rejected.
\<close>

theorem validateTitle_accepts_double_space:
  "validateTitle (JStr ''Title  with  double'') = \<lparr>valid = True, error = []\<rparr>
   \<and> trim ''Title  with  double'' = ''Title  with  double''
   \<and> is_ws (''Title  with  double'' ! 5) \<and> is_ws (''Title  with  double'' ! 6)"
  by code_simp

theorem validateTitle_accepts_double_space_witness:
  "valid (validateTitle (JStr ''Title  with  double''))"
  using validateTitle_accepts_double_space by simp

text \<open>
  C3: \<open>highlightMatches\<close> returns the text with every match wrapped in \<^verbatim>\<open><mark>\<close>, and with
  the matches and all other characters escaped.  The code escapes the matches only: the
  text outside them is copied as it is, markup included (the callers that have no
  expression escape the whole text with \<open>escapeHtml\<close>).  And with an expression that is not
  global, only the first match is wrapped.
\<close>

theorem highlightMatches_leaves_markup:
  "highlightMatches ''<b>exam</b>'' (fst (compileRegex RegExp_new (JStr ''exam'') ''gi''))
     = ''<b><mark>exam</mark></b>''
   \<and> escapeHtml ''<b>exam</b>'' = ''&lt;b&gt;exam&lt;/b&gt;''
   \<and> highlightMatches ''exam exam'' (fst (compileRegex RegExp_new (JStr ''exam'') ''i''))
     = ''<mark>exam</mark> exam''"
  by code_simp

theorem highlightMatches_leaves_markup_witness:
  "highlightMatches ''<b>exam</b>'' (fst (compileRegex RegExp_new (JStr ''exam'') ''gi''))
     \<noteq> ''&lt;b&gt;<mark>exam</mark>&lt;/b&gt;''"
  using highlightMatches_leaves_markup by simp

text \<open>
  The loop of \<open>findMatches\<close> on the text \<^verbatim>\<open>abc\<close> with the pattern \<^verbatim>\<open>x*\<close>: the pattern matches
  the empty string at index 0 and \<^verbatim>\<open>exec\<close> leaves \<^verbatim>\<open>lastIndex\<close> at 0, so every round starts
  as the first one did.
\<close>

lemma compileRegex_star_x: "compileRegex RegExp_new (JStr ''x*'') ''gi'' = (Some star_x, [])"
  by code_simp

lemma RegExp_exec_star_x:
  "RegExp_exec star_x ''abc'' = (Some \<lparr>m_index = 0, m_text = [], m_group = []\<rparr>, star_x)"
  by code_simp

lemma findMatches_loop_star_x:
  assumes "findMatches_loop re t ms = Some y"
  shows "\<not> (re = star_x \<and> t = ''abc'')"
  using assms
proof (rule findMatches_loop.raw_induct[rotated,
         where P = "\<lambda>re t ms y. \<not> (re = star_x \<and> t = ''abc'')"])
  fix f :: "regexp \<Rightarrow> string \<Rightarrow> MatchSpan list \<Rightarrow> MatchSpan list option"
    and re t ms y
  assume IH: "\<And>re t ms y. f re t ms = Some y \<Longrightarrow> \<not> (re = star_x \<and> t = ''abc'')"
    and eq: "(case RegExp_exec re t of
                (None, re') \<Rightarrow> Some ms
              | (Some mt, re') \<Rightarrow>
                  f re' t (ms @ [\<lparr>ms_text = m_text mt, ms_index = m_index mt,
                                   ms_length = length (m_text mt)\<rparr>])) = Some y"
  show "\<not> (re = star_x \<and> t = ''abc'')"
  proof
    assume "re = star_x \<and> t = ''abc''"
    with eq RegExp_exec_star_x
    have "f star_x ''abc'' (ms @ [\<lparr>ms_text = [], ms_index = 0, ms_length = 0\<rparr>]) = Some y"
      by simp
    from IH[OF this] show False by simp
  qed
qed

text \<open>
  C4: \<open>findMatches\<close> ends for every text and every expression and returns all matches.  The
  code does not end when the pattern can match the empty string: the loop does not move
  \<^verbatim>\<open>lastIndex\<close> on after an empty match (as \<^verbatim>\<open>replace\<close> does in \<open>highlightMatches\<close>).  For
  the text \<^verbatim>\<open>abc\<close> and the pattern \<^verbatim>\<open>x*\<close>, compiled by \<open>compileRegex\<close>, it never returns.
\<close>

theorem findMatches_never_returns:
  "findMatches ''abc'' (fst (compileRegex RegExp_new (JStr ''x*'') ''gi'')) = None"
proof (cases "findMatches_loop star_x ''abc'' []")
  case None
  then show ?thesis by (simp add: compileRegex_star_x findMatches_def star_x_def)
next
  case (Some y)
  from findMatches_loop_star_x[OF Some] show ?thesis by simp
qed

theorem findMatches_never_returns_witness:
  "findMatches ''abc'' (fst (compileRegex RegExp_new (JStr ''x*'') ''gi'')) \<noteq> Some []"
  using findMatches_never_returns by simp

text \<open>Where every match takes a character the loop ends, and finds all of them.\<close>

lemma findMatches_banana:
  "findMatches ''banana'' (fst (compileRegex RegExp_new (JStr ''an'') ''i''))
     = Some [\<lparr>ms_text = ''an'', ms_index = 1, ms_length = 2\<rparr>,
             \<lparr>ms_text = ''an'', ms_index = 3, ms_length = 2\<rparr>]"
proof -
  have "fst (compileRegex RegExp_new (JStr ''an'') ''i'')
          = Some \<lparr>pat = Seq (Chr CHR ''a'') (Chr CHR ''n''), flags = ''i'', lastIndex = 0\<rparr>"
    by code_simp
  moreover have "RegExp_exec \<lparr>pat = Seq (Chr CHR ''a'') (Chr CHR ''n''), flags = ''ig'', lastIndex = 0\<rparr> ''banana''
      = (Some \<lparr>m_index = 1, m_text = ''an'', m_group = []\<rparr>,
         \<lparr>pat = Seq (Chr CHR ''a'') (Chr CHR ''n''), flags = ''ig'', lastIndex = 3\<rparr>)"
    by code_simp
  moreover have "RegExp_exec \<lparr>pat = Seq (Chr CHR ''a'') (Chr CHR ''n''), flags = ''ig'', lastIndex = 3\<rparr> ''banana''
      = (Some \<lparr>m_index = 3, m_text = ''an'', m_group = []\<rparr>,
         \<lparr>pat = Seq (Chr CHR ''a'') (Chr CHR ''n''), flags = ''ig'', lastIndex = 5\<rparr>)"
    by code_simp
  moreover have "RegExp_exec \<lparr>pat = Seq (Chr CHR ''a'') (Chr CHR ''n''), flags = ''ig'', lastIndex = 5\<rparr> ''banana''
      = (None, \<lparr>pat = Seq (Chr CHR ''a'') (Chr CHR ''n''), flags = ''ig'', lastIndex = 0\<rparr>)"
    by code_simp
  ultimately show ?thesis
    by (simp add: findMatches_def findMatches_loop.simps)
qed

text \<open>
  The first layer of \<open>validateDate\<close> is the shape above, for every text: a month from 01 to
  12 and a day from 01 to 31 whatever the month (lemma \<open>patterns_date_shape\<close>).  What is
  left to the second layer, for the three dates of the claim and any host:
\<close>

lemma validateDate_layers:
  "validateDate Date (JStr ''2025-09-29'')
     = (if Date ''2025-09-29T00:00:00Z'' = None then \<lparr>valid = False, error = ''Invalid date''\<rparr>
        else \<lparr>valid = True, error = []\<rparr>)"
  "validateDate Date (JStr ''2025-13-01'')
     = \<lparr>valid = False, error = ''Date must be in YYYY-MM-DD format''\<rparr>"
  "validateDate Date (JStr ''2025-02-30'')
     = (if Date ''2025-02-30T00:00:00Z'' = None then \<lparr>valid = False, error = ''Invalid date''\<rparr>
        else \<lparr>valid = True, error = []\<rparr>)"
proof -
  have a: "test patterns_date ''2025-09-29''" by code_simp
  have b: "\<not> test patterns_date ''2025-13-01''" by code_simp
  have c: "test patterns_date ''2025-02-30''" by code_simp
  show "validateDate Date (JStr ''2025-09-29'')
     = (if Date ''2025-09-29T00:00:00Z'' = None then \<lparr>valid = False, error = ''Invalid date''\<rparr>
        else \<lparr>valid = True, error = []\<rparr>)"
    using a by (simp add: validateDate_def)
  show "validateDate Date (JStr ''2025-13-01'')
     = \<lparr>valid = False, error = ''Date must be in YYYY-MM-DD format''\<rparr>"
    using b by (simp add: validateDate_def)
  show "validateDate Date (JStr ''2025-02-30'')
     = (if Date ''2025-02-30T00:00:00Z'' = None then \<lparr>valid = False, error = ''Invalid date''\<rparr>
        else \<lparr>valid = True, error = []\<rparr>)"
    using c by (simp add: validateDate_def)
qed

text \<open>On a host that refuses a day beyond the end of the month, the claim holds as stated.\<close>

lemma validateDate_strict_host:
  "validateDate (Date_parse False) (JStr ''2025-09-29'') = \<lparr>valid = True, error = []\<rparr>"
  "validateDate (Date_parse False) (JStr ''2025-13-01'')
     = \<lparr>valid = False, error = ''Date must be in YYYY-MM-DD format''\<rparr>"
  "validateDate (Date_parse False) (JStr ''2025-02-30'') = \<lparr>valid = False, error = ''Invalid date''\<rparr>"
proof -
  have a: "Date_parse False ''2025-09-29T00:00:00Z'' = Some 1759104000000" by code_simp
  have c: "Date_parse False ''2025-02-30T00:00:00Z'' = None" by code_simp
  show "validateDate (Date_parse False) (JStr ''2025-09-29'') = \<lparr>valid = True, error = []\<rparr>"
    using a by (simp add: validateDate_layers)
  show "validateDate (Date_parse False) (JStr ''2025-13-01'')
     = \<lparr>valid = False, error = ''Date must be in YYYY-MM-DD format''\<rparr>"
    by (simp add: validateDate_layers)
  show "validateDate (Date_parse False) (JStr ''2025-02-30'') = \<lparr>valid = False, error = ''Invalid date''\<rparr>"
    using c by (simp add: validateDate_layers)
qed

text \<open>
  C5: \<open>validateDate\<close> accepts \<^verbatim>\<open>2025-09-29\<close>, refuses \<^verbatim>\<open>2025-13-01\<close>, and refuses \<^verbatim>\<open>2025-02-30\<close>,
  which passes the pattern, in its second layer with the message \<^verbatim>\<open>Invalid date\<close>.  The
  second layer is \<^verbatim>\<open>isNaN(new Date(date + 'T00:00:00Z').getTime())\<close>, meant to check that the
  date exists.  On a host that counts a day beyond the end of the month on into the next
  month, the text \<^verbatim>\<open>2025-02-30T00:00:00Z\<close> is the 2nd of March 2025, not NaN, and the code
  accepts the 30th of February.
\<close>

theorem validateDate_accepts_february_30:
  "test patterns_date ''2025-02-30''
   \<and> Date_parse True ''2025-02-30T00:00:00Z'' = Some 1740873600000
   \<and> Date_parse True ''2025-03-02T00:00:00Z'' = Some 1740873600000
   \<and> validateDate (Date_parse True) (JStr ''2025-02-30'') = \<lparr>valid = True, error = []\<rparr>"
  by code_simp

theorem validateDate_accepts_february_30_witness:
  "valid (validateDate (Date_parse True) (JStr ''2025-02-30''))"
  using validateDate_accepts_february_30 by simp

text \<open>
  C6: \<open>compileRegex\<close> never raises: for a pattern that is empty or not a string it returns
  no expression and the empty message; when the constructor throws it returns no
  expression and a message that is not empty (the constructor's, after
  \<^verbatim>\<open>Invalid regex: \<close>); otherwise it returns the expression and the empty message.
\<close>

theorem compileRegex_never_raises:
  "(pattern = JStr [] \<or> \<not> is_string pattern \<longrightarrow> compileRegex RegExp pattern fl = (None, []))
   \<and> (\<forall>s message. pattern = JStr s \<and> s \<noteq> [] \<and> RegExp s fl = Inl message \<longrightarrow>
          compileRegex RegExp pattern fl = (None, ''Invalid regex: '' @ message)
          \<and> snd (compileRegex RegExp pattern fl) \<noteq> [])
   \<and> (\<forall>s regex. pattern = JStr s \<and> s \<noteq> [] \<and> RegExp s fl = Inr regex \<longrightarrow>
          compileRegex RegExp pattern fl = (Some regex, []))"
  by (cases pattern) (auto simp: compileRegex_def)

lemma RegExp_new_bracket:
  "RegExp_new ''['' ''i'' = Inl ''Invalid regular expression: /[/i: Unterminated character class''"
  by code_simp

lemma RegExp_new_exam_i:
  "RegExp_new ''exam'' ''i''
     = Inr \<lparr>pat = Seq (Chr CHR ''e'') (Seq (Chr CHR ''x'') (Seq (Chr CHR ''a'') (Chr CHR ''m''))),
             flags = ''i'', lastIndex = 0\<rparr>"
  by code_simp

theorem compileRegex_never_raises_witness:
  "compileRegex RegExp_new (JStr []) ''i'' = (None, [])
   \<and> compileRegex RegExp_new JUndefined ''i'' = (None, [])
   \<and> compileRegex RegExp_new (JStr ''['') ''i''
        = (None, ''Invalid regex: Invalid regular expression: /[/i: Unterminated character class'')
   \<and> compileRegex RegExp_new (JStr ''exam'') ''i''
        = (Some \<lparr>pat = Seq (Chr CHR ''e'') (Seq (Chr CHR ''x'') (Seq (Chr CHR ''a'') (Chr CHR ''m''))),
                  flags = ''i'', lastIndex = 0\<rparr>, [])"
  using compileRegex_never_raises[of "JStr []" RegExp_new "''i''"]
    compileRegex_never_raises[of JUndefined RegExp_new "''i''"]
    compileRegex_never_raises[of "JStr ''[''" RegExp_new "''i''"]
    compileRegex_never_raises[of "JStr ''exam''" RegExp_new "''i''"]
    RegExp_new_bracket RegExp_new_exam_i
  by simp

lemma command_shapes_disjoint: "\<not> (tag_command_shape q \<and> date_command_shape q)"
proof
  assume a: "tag_command_shape q \<and> date_command_shape q"
  then have "take 6 q ! 1 = ''@date:'' ! 1" by (simp add: date_command_shape_def)
  then have "q ! 1 = CHR ''d''" by simp
  moreover from a have "q ! 1 \<in> set ''tT''" by (simp add: tag_command_shape_def)
  ultimately show False by simp
qed

text \<open>
  C7: \<open>parseQuery\<close> returns for every string: the empty query gives no command and the
  empty pattern; a string that is, as a whole, \<^verbatim>\<open>@tag:\<close> (in any case) and a word gives the
  command \<^verbatim>\<open>tag\<close> with the word; a string that is, as a whole, \<^verbatim>\<open>@date:\<close> and
  \<^verbatim>\<open>YYYY-MM-DD\<close> gives the command \<^verbatim>\<open>date\<close> with the date; every other string, also one
  that only starts like a command, gives no command and the string itself.  No string has
  both shapes.
\<close>

theorem parseQuery_shapes:
  "parseQuery q =
     (if q = [] then (None, JStr [])
      else if tag_command_shape q then (Some ''tag'', JStr (drop 5 q))
      else if date_command_shape q then (Some ''date'', JStr (drop 6 q))
      else (None, JStr q))
   \<and> \<not> (tag_command_shape q \<and> date_command_shape q)"
  by (simp add: parseQuery_def String_match_tag_query String_match_date_query
        command_shapes_disjoint)

lemma command_examples:
  "tag_command_shape ''@tag:Academic''" "\<not> tag_command_shape ''@tag:Academic ''"
  "\<not> date_command_shape ''@tag:Academic ''"
  "\<not> tag_command_shape ''@date:2025-09-29''" "date_command_shape ''@date:2025-09-29''"
  "\<not> tag_command_shape ''exam''" "\<not> date_command_shape ''exam''"
  by code_simp+


theorem parseQuery_shapes_witness:
  "parseQuery [] = (None, JStr [])
   \<and> parseQuery ''@tag:Academic'' = (Some ''tag'', JStr ''Academic'')
   \<and> parseQuery ''@tag:Academic '' = (None, JStr ''@tag:Academic '')
   \<and> parseQuery ''@date:2025-09-29'' = (Some ''date'', JStr ''2025-09-29'')
   \<and> parseQuery ''exam'' = (None, JStr ''exam'')"
  using parseQuery_shapes[of "[]"] parseQuery_shapes[of "''@tag:Academic''"]
    parseQuery_shapes[of "''@tag:Academic ''"] parseQuery_shapes[of "''@date:2025-09-29''"]
    parseQuery_shapes[of "''exam''"]
  by (simp add: command_examples)

text \<open>
  C8: with the empty query \<open>performSearch\<close> returns the array it was given and the empty
  message; with a query that is a free pattern and that the constructor refuses, it returns
  an empty array and the message of \<open>compileRegex\<close>, which is not empty.  It raises nothing.
\<close>

theorem performSearch_empty_and_failure:
  "performSearch RegExp h tasks [] caseSensitive = (\<lparr>r_tasks = tasks, r_error = []\<rparr>, h)
   \<and> (\<forall>message. query \<noteq> [] \<and> fst (parseQuery query) = None
          \<and> RegExp query (if caseSensitive then ''g'' else ''gi'') = Inl message \<longrightarrow>
        (case performSearch RegExp h tasks query caseSensitive of
           (r, h') \<Rightarrow> h' ! r_tasks r = [] \<and> r_error r = ''Invalid regex: '' @ message
                        \<and> r_error r \<noteq> [] \<and> take (length h) h' = h))"
proof (intro conjI allI impI)
  show "performSearch RegExp h tasks [] caseSensitive = (\<lparr>r_tasks = tasks, r_error = []\<rparr>, h)"
    by (simp add: performSearch_def)
next
  fix message
  assume a: "query \<noteq> [] \<and> fst (parseQuery query) = None
          \<and> RegExp query (if caseSensitive then ''g'' else ''gi'') = Inl message"
  then have p: "parseQuery query = (None, JStr query)" by (simp add: parseQuery_free)
  from a have c: "compileRegex RegExp (JStr query) (if caseSensitive then ''g'' else ''gi'')
                    = (None, ''Invalid regex: '' @ message)"
    by (simp add: compileRegex_def)
  from a p c show "case performSearch RegExp h tasks query caseSensitive of
           (r, h') \<Rightarrow> h' ! r_tasks r = [] \<and> r_error r = ''Invalid regex: '' @ message
                        \<and> r_error r \<noteq> [] \<and> take (length h) h' = h"
    by (simp add: performSearch_def alloc_def)
qed

lemma parseQuery_bracket: "parseQuery ''['' = (None, JStr ''['')"
  by code_simp

lemma RegExp_new_bracket_gi:
  "RegExp_new ''['' ''gi'' = Inl ''Invalid regular expression: /[/gi: Unterminated character class''"
  by code_simp

theorem performSearch_empty_and_failure_witness:
  "performSearch RegExp_new [[exam_task_1, exam_task_2]] 0 [] False
     = (\<lparr>r_tasks = 0, r_error = []\<rparr>, [[exam_task_1, exam_task_2]])
   \<and> (case performSearch RegExp_new [[exam_task_1, exam_task_2]] 0 ''['' False of
         (r, h') \<Rightarrow> h' ! r_tasks r = []
            \<and> r_error r = ''Invalid regex: Invalid regular expression: /[/gi: Unterminated character class''
            \<and> r_error r \<noteq> [] \<and> take 1 h' = [[exam_task_1, exam_task_2]])"
  using performSearch_empty_and_failure[of RegExp_new "[[exam_task_1, exam_task_2]]" 0 False "''[''"]
    parseQuery_bracket RegExp_new_bracket_gi
  by simp

text \<open>
  C9: \<open>searchTasks\<close>, \<open>applyCommand\<close> and \<open>performSearch\<close> never change the array they are
  given, and their result is a new, filtered array.  The first half holds.  The result is
  not always new: without an expression, with another command than \<^verbatim>\<open>tag\<close> or \<^verbatim>\<open>date\<close>, and
  with the empty query, the functions return the array they were given, by
  \<^verbatim>\<open>return tasks\<close>.  Here the store holds one array, at reference 0, and each result is that
  reference again, with no array added to the store.
\<close>

theorem result_is_the_input_array:
  "searchTasks [[exam_task_1, exam_task_2]] 0 None default_fields
     = (0, [[exam_task_1, exam_task_2]], None)
   \<and> applyCommand [[exam_task_1, exam_task_2]] 0 ''status'' (JStr ''done'')
     = (0, [[exam_task_1, exam_task_2]])
   \<and> performSearch RegExp_new [[exam_task_1, exam_task_2]] 0 [] False
     = (\<lparr>r_tasks = 0, r_error = []\<rparr>, [[exam_task_1, exam_task_2]])"
  by (simp add: searchTasks_def applyCommand_def performSearch_def)

text \<open>
  C9, amended: the three functions never change the array they are given, nor any other
  array of the store, and the array they return holds tasks of the given array in their
  order.  It is a new array when a filter ran (\<open>searchTasks\<close> with an expression,
  \<open>applyCommand\<close> with \<^verbatim>\<open>tag\<close> or \<^verbatim>\<open>date\<close>, \<open>performSearch\<close> with a query that is not empty) and the
  given array itself otherwise.
\<close>

theorem search_never_mutates:
  assumes "tasks < length h"
  shows "(case searchTasks h tasks regex flds of
           (r, h', regex') \<Rightarrow>
             h' ! tasks = h ! tasks \<and> take (length h) h' = h \<and> subseq (h' ! r) (h ! tasks)
             \<and> (if regex = None then r = tasks \<and> h' = h
                 else r = length h \<and> length h' = Suc (length h)))
       \<and> (case applyCommand h tasks command pattern of
           (r, h') \<Rightarrow>
             h' ! tasks = h ! tasks \<and> take (length h) h' = h \<and> subseq (h' ! r) (h ! tasks)
             \<and> (if command = ''tag'' \<or> command = ''date''
                 then r = length h \<and> length h' = Suc (length h)
                 else r = tasks \<and> h' = h))
       \<and> (case performSearch RegExp h tasks query caseSensitive of
           (res, h') \<Rightarrow>
             h' ! tasks = h ! tasks \<and> take (length h) h' = h
             \<and> subseq (h' ! r_tasks res) (h ! tasks)
             \<and> (if query = [] then r_tasks res = tasks \<and> h' = h
                 else r_tasks res = length h \<and> length h' = Suc (length h)))"
  using searchTasks_frame[OF assms] applyCommand_frame[OF assms] performSearch_frame[OF assms]
  by simp

lemma performSearch_tag_academic:
  "performSearch RegExp_new [[exam_task_1, exam_task_2]] 0 ''@tag:Academic'' False
     = (\<lparr>r_tasks = 1, r_error = []\<rparr>,
        [[exam_task_1, exam_task_2], [exam_task_1, exam_task_2]])"
  by code_simp

theorem search_never_mutates_witness:
  "(0::nat) < length [[exam_task_1, exam_task_2]]
   \<and> performSearch RegExp_new [[exam_task_1, exam_task_2]] 0 ''@tag:Academic'' False
       = (\<lparr>r_tasks = 1, r_error = []\<rparr>, [[exam_task_1, exam_task_2], [exam_task_1, exam_task_2]])
   \<and> [[exam_task_1, exam_task_2], [exam_task_1, exam_task_2]] ! 0 = [exam_task_1, exam_task_2]
   \<and> subseq ([[exam_task_1, exam_task_2], [exam_task_1, exam_task_2]] ! 1) [exam_task_1, exam_task_2]"
proof -
  have h: "(0::nat) < length [[exam_task_1, exam_task_2]]" by simp
  from search_never_mutates[OF h, where regex = None and flds = default_fields
         and command = "''tag''" and pattern = "JStr ''Academic''" and RegExp = RegExp_new
         and query = "''@tag:Academic''" and caseSensitive = False]
    performSearch_tag_academic h
  show ?thesis by simp
qed

text \<open>
  C10: the validators of title, tag and duration give the same result for a string and for
  the string trimmed, when the trimmed string is not empty, since each of them trims before
  it checks; so content that is valid stays valid with white space around it.
  \<open>validateDate\<close> does not trim: a string with white space at either end fails its pattern.
\<close>

theorem validators_trim_invariant:
  "(trim s \<noteq> [] \<longrightarrow>
       validateTitle (JStr s) = validateTitle (JStr (trim s))
     \<and> validateTag (JStr s) = validateTag (JStr (trim s))
     \<and> validateDuration (JStr s) = validateDuration (JStr (trim s)))
   \<and> (s \<noteq> trim s \<longrightarrow>
        validateDate Date (JStr s)
          = \<lparr>valid = False, error = ''Date must be in YYYY-MM-DD format''\<rparr>)"
proof (intro conjI impI)
  assume n: "trim s \<noteq> []"
  then have s: "s \<noteq> []" by auto
  from n s show "validateTitle (JStr s) = validateTitle (JStr (trim s))"
    by (simp add: validateTitle_def trim_idem)
  from n s show "validateTag (JStr s) = validateTag (JStr (trim s))"
    by (simp add: validateTag_def trim_idem)
  from n s show "validateDuration (JStr s) = validateDuration (JStr (trim s))"
    by (simp add: validateDuration_def trim_idem)
next
  assume d: "s \<noteq> trim s"
  then have s: "s \<noteq> []" by auto
  from d date_shape_trimmed[of s] have "\<not> test patterns_date s"
    by (auto simp: patterns_date_shape)
  with s show "validateDate Date (JStr s)
          = \<lparr>valid = False, error = ''Date must be in YYYY-MM-DD format''\<rparr>"
    by (simp add: validateDate_def)
qed

lemma trim_examples:
  "trim ''  Valid Title '' = ''Valid Title''" "trim '' Academic'' = ''Academic''"
  "trim ''90.5 '' = ''90.5''" "trim '' 2025-09-29'' = ''2025-09-29''"
  by code_simp+

lemma trimmed_examples:
  "validateTitle (JStr ''Valid Title'') = \<lparr>valid = True, error = []\<rparr>"
  "validateTag (JStr ''Academic'') = \<lparr>valid = True, error = []\<rparr>"
  "validateDuration (JStr ''90.5'') = \<lparr>valid = True, error = []\<rparr>"
  by code_simp+


theorem validators_trim_invariant_witness:
  "validateTitle (JStr ''  Valid Title '') = \<lparr>valid = True, error = []\<rparr>
   \<and> validateTag (JStr '' Academic'') = \<lparr>valid = True, error = []\<rparr>
   \<and> validateDuration (JStr ''90.5 '') = \<lparr>valid = True, error = []\<rparr>
   \<and> validateDate (Date_parse False) (JStr '' 2025-09-29'')
        = \<lparr>valid = False, error = ''Date must be in YYYY-MM-DD format''\<rparr>"
  using validators_trim_invariant[of "''  Valid Title ''"]
    validators_trim_invariant[of "'' Academic''"]
    validators_trim_invariant[of "''90.5 ''"]
    validators_trim_invariant[of "'' 2025-09-29''" "Date_parse False"]
  by (simp add: trim_examples trimmed_examples)

end
